theory Spec2Isabelle
  imports Main
begin

section \<open>Strings\<close>

text \<open>
  A Python \<open>str\<close> is a sequence of Unicode code points. It is modelled as a list of
  natural numbers, one per code point, so that the Arabic page texts the scripts handle
  are inputs of the model. An ASCII literal of the source is written \<open>ustr ''...''\<close>.
\<close>

type_synonym ustring = "nat list"

definition ustr :: "string \<Rightarrow> ustring" where
  "ustr s = map of_char s"

text \<open>\<open>str(n)\<close> for a Python integer.\<close>

fun str_nat :: "nat \<Rightarrow> ustring" where
  "str_nat n = (if n < 10 then [48 + n] else str_nat (n div 10) @ [48 + n mod 10])"

definition str_int :: "int \<Rightarrow> ustring" where
  "str_int i = (if i < 0 then 45 # str_nat (nat (- i)) else str_nat (nat i))"

section \<open>Exceptions\<close>

text \<open>
  The exceptions the scripts can meet, each carrying the text \<open>str(e)\<close> gives.
  \<open>RateLimitError\<close> and \<open>APIError\<close> are the two classes \<open>translate_text\<close> names
  (\<open>APIError\<close> here stands for an API error that is not a rate-limit error: the
  \<open>except RateLimitError\<close> clause comes first and takes those); \<open>ClientError\<close> is any
  other exception leaving \<open>client.messages.create\<close>; \<open>PyException\<close> is
  \<open>raise Exception(...)\<close>.
\<close>

datatype exn =
    RateLimitError ustring
  | APIError ustring
  | ClientError ustring
  | IndexError
  | ValueError ustring
  | TypeError ustring
  | OSError ustring
  | PyException ustring

fun exn_str :: "exn \<Rightarrow> ustring" where
  "exn_str (RateLimitError m) = m"
| "exn_str (APIError m) = m"
| "exn_str (ClientError m) = m"
| "exn_str IndexError = ustr ''list index out of range''"
| "exn_str (ValueError m) = m"
| "exn_str (TypeError m) = m"
| "exn_str (OSError m) = m"
| "exn_str (PyException m) = m"

section \<open>The remote transform client: \<open>translate_text\<close>\<close>

text \<open>
  \<open>client.messages.create(**params)\<close> is the one external call. The system prompt,
  the user prompt prefix and \<open>max_tokens\<close> are the same in every request, so a request
  is determined by the model name and the page text. The remote service is an oracle
  with a state of its own: \<open>call c req\<close> gives what the call does in state \<open>c\<close> (a
  response with its list of content blocks, or an exception) and the next state.
\<close>

record request =
  req_model :: ustring
  req_max_tokens :: int
  req_text :: ustring

datatype api_outcome = Response "ustring list" | Raises exn

type_synonym 'c client = "'c \<Rightarrow> request \<Rightarrow> api_outcome \<times> 'c"

text \<open>What an observer of one \<open>translate_text\<close> call sees, in order.\<close>

datatype event = ApiCall request | Sleep int

definition default_max_retries :: int where
  "default_max_retries = 3"

definition default_retry_delay :: int where
  "default_retry_delay = 2"

definition mk_request :: "ustring \<Rightarrow> ustring \<Rightarrow> request" where
  "mk_request model text = \<lparr>req_model = model, req_max_tokens = 4000, req_text = text\<rparr>"

text \<open>
  The body of the \<open>try\<close>: the call, then \<open>response.content[0].text\<close>, which raises
  \<open>IndexError\<close> on an empty content list.
\<close>

definition try_call :: "'c client \<Rightarrow> 'c \<Rightarrow> request \<Rightarrow> (exn + ustring) \<times> 'c" where
  "try_call call c req =
     (case call c req of
        (Response [], c') \<Rightarrow> (Inl IndexError, c')
      | (Response (b # bs), c') \<Rightarrow> (Inr b, c')
      | (Raises e, c') \<Rightarrow> (Inl e, c'))"

definition prepend :: "event list \<Rightarrow> 'c \<times> event list \<times> 'r \<Rightarrow> 'c \<times> event list \<times> 'r" where
  "prepend es r = (case r of (c, tr, res) \<Rightarrow> (c, es @ tr, res))"

text \<open>
  The loop \<open>for attempt in range(max_retries)\<close>, with \<open>n\<close> the number of iterations
  left. \<open>time.sleep\<close> raises \<open>ValueError\<close> on a negative length; raised inside a
  handler, it leaves the function.
\<close>

fun attempt_loop ::
  "'c client \<Rightarrow> request \<Rightarrow> int \<Rightarrow> int \<Rightarrow> nat \<Rightarrow> nat \<Rightarrow> 'c \<Rightarrow> 'c \<times> event list \<times> (exn + ustring)" where
  "attempt_loop call req max_retries retry_delay attempt 0 c =
     (c, [], Inl (PyException
        (ustr ''Failed to translate after '' @ str_int max_retries @ ustr '' attempts'')))"
| "attempt_loop call req max_retries retry_delay attempt (Suc n) c =
     (case try_call call c req of
        (Inr text, c') \<Rightarrow> (c', [ApiCall req], Inr text)
      | (Inl (RateLimitError m), c') \<Rightarrow>
          (let wait_time = retry_delay * 2 ^ attempt in
           if wait_time < 0
           then (c', [ApiCall req], Inl (ValueError (ustr ''sleep length must be non-negative'')))
           else prepend [ApiCall req, Sleep wait_time]
                  (attempt_loop call req max_retries retry_delay (Suc attempt) n c'))
      | (Inl (APIError m), c') \<Rightarrow>
          (if int attempt < max_retries - 1
           then (let wait_time = retry_delay * 2 ^ attempt in
                 if wait_time < 0
                 then (c', [ApiCall req], Inl (ValueError (ustr ''sleep length must be non-negative'')))
                 else prepend [ApiCall req, Sleep wait_time]
                        (attempt_loop call req max_retries retry_delay (Suc attempt) n c'))
           else (c', [ApiCall req], Inl (APIError m)))
      | (Inl e, c') \<Rightarrow> (c', [ApiCall req], Inl e))"

definition translate_text ::
  "'c client \<Rightarrow> 'c \<Rightarrow> ustring \<Rightarrow> ustring \<Rightarrow> int \<Rightarrow> int \<Rightarrow> 'c \<times> event list \<times> (exn + ustring)" where
  "translate_text call c text model max_retries retry_delay =
     attempt_loop call (mk_request model text) max_retries retry_delay 0 (nat max_retries) c"


text \<open>The errors \<open>translate_text\<close> does not retry: the \<open>except Exception\<close> clause.\<close>

fun fatal :: "exn \<Rightarrow> bool" where
  "fatal (RateLimitError m) = False"
| "fatal (APIError m) = False"
| "fatal e = True"



section \<open>Character classes\<close>

text \<open>
  The classes of code points the scripts rely on. Those of ASCII are written out.
  Beyond ASCII, which code points are decimal digits (general category Nd: what
  \<open>\d\<close> matches in a \<open>str\<close> pattern and what \<open>int\<close> accepts), which have the digit
  property of \<open>str.isdigit\<close>, and what \<open>str.lower\<close> returns, depend on the Unicode
  tables of the interpreter: they are a parameter \<open>U\<close> of the model, and the theorems
  hold for every value of it. The whitespace of \<open>str.strip\<close> is a short fixed table.
\<close>

record unicode_db =
  nd_value :: "nat \<Rightarrow> nat option"
  digit_prop :: "nat \<Rightarrow> bool"
  lower_nonascii :: "ustring \<Rightarrow> ustring"

definition ascii_digit :: "nat \<Rightarrow> bool" where
  "ascii_digit c = (48 \<le> c \<and> c \<le> 57)"

definition decimal_value :: "unicode_db \<Rightarrow> nat \<Rightarrow> nat option" where
  "decimal_value U c =
     (if ascii_digit c then Some (c - 48) else if c < 128 then None else nd_value U c)"

definition re_digit :: "unicode_db \<Rightarrow> nat \<Rightarrow> bool" where
  "re_digit U c = (decimal_value U c \<noteq> None)"

definition is_digit_char :: "unicode_db \<Rightarrow> nat \<Rightarrow> bool" where
  "is_digit_char U c = (decimal_value U c \<noteq> None \<or> (128 \<le> c \<and> digit_prop U c))"

definition str_isdigit :: "unicode_db \<Rightarrow> ustring \<Rightarrow> bool" where
  "str_isdigit U t = (t \<noteq> [] \<and> list_all (is_digit_char U) t)"

definition ascii_lower :: "nat \<Rightarrow> nat" where
  "ascii_lower c = (if 65 \<le> c \<and> c \<le> 90 then c + 32 else c)"

definition str_lower :: "unicode_db \<Rightarrow> ustring \<Rightarrow> ustring" where
  "str_lower U t = (if list_all (\<lambda>c. c < 128) t then map ascii_lower t else lower_nonascii U t)"

text \<open>
  \<open>int(text)\<close> for a text that passed \<open>isdigit\<close>: the decimal value when every code
  point is a decimal digit, \<open>ValueError\<close> otherwise (a superscript two is a digit for
  \<open>isdigit\<close> and no literal for \<open>int\<close>).
\<close>

fun decimal_of :: "unicode_db \<Rightarrow> nat \<Rightarrow> ustring \<Rightarrow> nat option" where
  "decimal_of U acc [] = Some acc"
| "decimal_of U acc (c # cs) =
     (case decimal_value U c of None \<Rightarrow> None | Some v \<Rightarrow> decimal_of U (10 * acc + v) cs)"

definition py_int :: "unicode_db \<Rightarrow> ustring \<Rightarrow> exn + int" where
  "py_int U t =
     (case decimal_of U 0 t of
        None \<Rightarrow> Inl (ValueError (ustr ''invalid literal for int() with base 10''))
      | Some n \<Rightarrow> Inr (int n))"

text \<open>
  One value of the parameter, used to run the model: the tables of Unicode for the
  code points below 256 (the superscripts one, two and three have the digit property;
  the capital letters of Latin-1 have lower-case forms), and nothing beyond.
\<close>

definition latin1_db :: unicode_db where
  "latin1_db =
     \<lparr>nd_value = (\<lambda>c. None),
      digit_prop = (\<lambda>c. c = 178 \<or> c = 179 \<or> c = 185),
      lower_nonascii =
        map (\<lambda>c. if (65 \<le> c \<and> c \<le> 90) \<or> (192 \<le> c \<and> c \<le> 222 \<and> c \<noteq> 215) then c + 32 else c)\<rparr>"

definition is_space :: "nat \<Rightarrow> bool" where
  "is_space c =
     ((9 \<le> c \<and> c \<le> 13) \<or> (28 \<le> c \<and> c \<le> 32) \<or> c = 133 \<or> c = 160 \<or> c = 5760 \<or>
      (8192 \<le> c \<and> c \<le> 8202) \<or> c = 8232 \<or> c = 8233 \<or> c = 8239 \<or> c = 8287 \<or> c = 12288)"

definition strip :: "ustring \<Rightarrow> ustring" where
  "strip s = rev (dropWhile is_space (rev (dropWhile is_space s)))"

definition starts_with :: "ustring \<Rightarrow> ustring \<Rightarrow> bool" where
  "starts_with p s = (take (length p) s = p)"

definition ends_with :: "ustring \<Rightarrow> ustring \<Rightarrow> bool" where
  "ends_with p s = (length p \<le> length s \<and> drop (length s - length p) s = p)"

section \<open>The work-item source: \<open>parse_ocr_file\<close>\<close>

text \<open>
  The pattern is \<^verbatim>\<open>===== (page_\d+) =====\n(.*?)(?=\n=====|\Z)\<close> with \<open>DOTALL\<close>.
  At a position of the text it matches when the text there reads \<open>===== page_\<close>, then
  a run of decimal digits, then \<open> =====\<close> and a newline. The run taken is the longest
  one: a shorter one is followed by a digit, where the pattern wants a space, so
  backtracking into \<open>\d+\<close> never succeeds. The lazy group then takes the shortest text
  after which a newline and \<open>=====\<close> follow or the input ends. \<open>match_page\<close> returns
  the two groups and the length of the match.
\<close>

fun lazy_body :: "ustring \<Rightarrow> ustring" where
  "lazy_body [] = []"
| "lazy_body (c # cs) =
     (if starts_with (ustr ''\<newline>====='') (c # cs) then [] else c # lazy_body cs)"

definition match_page :: "unicode_db \<Rightarrow> ustring \<Rightarrow> (ustring \<times> ustring \<times> nat) option" where
  "match_page U s =
     (if starts_with (ustr ''===== page_'') s
      then (let r1 = drop 11 s;
                ds = takeWhile (re_digit U) r1;
                r2 = dropWhile (re_digit U) r1
            in if ds \<noteq> [] \<and> starts_with (ustr '' =====\<newline>'') r2
               then (let body = lazy_body (drop 7 r2)
                     in Some (ustr ''page_'' @ ds, body, 11 + length ds + 7 + length body))
               else None)
      else None)"

text \<open>
  \<open>findall\<close>: scan from the left; after a match, go on where it ended (a match is
  never empty here); without a match, move one code point on.
\<close>

fun findall_pages :: "unicode_db \<Rightarrow> ustring \<Rightarrow> (ustring \<times> ustring) list" where
  "findall_pages U [] = []"
| "findall_pages U (c # cs) =
     (case match_page U (c # cs) of
        None \<Rightarrow> findall_pages U cs
      | Some (page_id, page_text, n) \<Rightarrow> (page_id, page_text) # findall_pages U (drop (n - 1) cs))"

definition parse_ocr_content :: "unicode_db \<Rightarrow> ustring \<Rightarrow> (ustring \<times> ustring) list" where
  "parse_ocr_content U content =
     map (\<lambda>(page_id, page_text). (page_id, strip page_text)) (findall_pages U content)"

text \<open>
  Opening and decoding the input file is the part that can raise (\<open>OSError\<close>, or
  \<open>UnicodeDecodeError\<close>, a \<open>ValueError\<close>): \<open>read_text path\<close> is what \<open>open\<close> and
  \<open>read\<close> give for a path. The function returns its list and the record it logs.
\<close>

datatype log_level = INFO | WARNING | ERROR

type_synonym log_record = "log_level \<times> ustring"

definition parse_ocr_file ::
  "unicode_db \<Rightarrow> (ustring \<Rightarrow> exn + ustring) \<Rightarrow> ustring \<Rightarrow> (ustring \<times> ustring) list \<times> log_record list" where
  "parse_ocr_file U read_text ocr_file_path =
     (case read_text ocr_file_path of
        Inr content \<Rightarrow>
          (let page_entries = parse_ocr_content U content
           in (page_entries,
               [(INFO, ustr ''Parsed '' @ str_nat (length page_entries) @
                       ustr '' pages from OCR file '' @ ocr_file_path)]))
      | Inl e \<Rightarrow>
          ([], [(ERROR, ustr ''Failed to parse OCR file '' @ ocr_file_path @ ustr '': '' @
                        exn_str e)]))"

section \<open>Natural sort: \<open>natural_sort_key\<close>\<close>

text \<open>
  \<open>re.split('([0-9]+)', s)\<close> cuts \<open>s\<close> at its runs of ASCII digits and keeps the
  runs: the result alternates text, run, text, ..., text, and the texts may be empty.
\<close>

function split_digit_runs :: "ustring \<Rightarrow> ustring list" where
  "split_digit_runs s =
     (let text = takeWhile (\<lambda>c. \<not> ascii_digit c) s;
          r = dropWhile (\<lambda>c. \<not> ascii_digit c) s
      in if r = [] then [text]
         else text # takeWhile ascii_digit r # split_digit_runs (dropWhile ascii_digit r))"
  by pat_completeness auto
termination
proof (relation "measure length")
  show "wf (measure length)" by simp
next
  fix s r :: ustring
  assume r: "r = dropWhile (\<lambda>c. \<not> ascii_digit c) s" and ne: "r \<noteq> []"
  from ne obtain x xs where x: "r = x # xs" by (cases r) auto
  have "dropWhile (\<lambda>c. \<not> ascii_digit c) s = x # xs" using r x by simp
  then have "ascii_digit x" by (simp add: dropWhile_eq_Cons_conv)
  then have "dropWhile ascii_digit r = dropWhile ascii_digit xs" using x by simp
  then have "length (dropWhile ascii_digit r) < length r"
    using x length_dropWhile_le [of ascii_digit xs] by simp
  also have "length r \<le> length s" using r by (simp add: length_dropWhile_le)
  finally show "(dropWhile ascii_digit r, s) \<in> measure length" by simp
qed

declare split_digit_runs.simps [simp del]

text \<open>
  An element of a key is an \<open>int\<close> or a \<open>str\<close>. The list comprehension builds the
  elements from left to right; \<open>int\<close> may raise.
\<close>

datatype key_elem = KInt int | KStr ustring

definition key_elem_of :: "unicode_db \<Rightarrow> ustring \<Rightarrow> exn + key_elem" where
  "key_elem_of U text =
     (if str_isdigit U text
      then (case py_int U text of Inl e \<Rightarrow> Inl e | Inr i \<Rightarrow> Inr (KInt i))
      else Inr (KStr (str_lower U text)))"

fun key_elems :: "unicode_db \<Rightarrow> ustring list \<Rightarrow> exn + key_elem list" where
  "key_elems U [] = Inr []"
| "key_elems U (t # ts) =
     (case key_elem_of U t of
        Inl e \<Rightarrow> Inl e
      | Inr k \<Rightarrow> (case key_elems U ts of Inl e \<Rightarrow> Inl e | Inr ks \<Rightarrow> Inr (k # ks)))"

definition natural_sort_key :: "unicode_db \<Rightarrow> ustring \<Rightarrow> exn + key_elem list" where
  "natural_sort_key U s = key_elems U (split_digit_runs s)"

text \<open>
  Python compares two lists at the first index where their elements are unequal (an
  \<open>int\<close> and a \<open>str\<close> are unequal, without error), with \<open><\<close> on those two elements,
  which raises \<open>TypeError\<close> for an \<open>int\<close> against a \<open>str\<close>; when one list is a prefix
  of the other the shorter is the smaller. Strings compare by code points.
\<close>

fun str_lt :: "ustring \<Rightarrow> ustring \<Rightarrow> bool" where
  "str_lt [] [] = False"
| "str_lt [] (y # ys) = True"
| "str_lt (x # xs) [] = False"
| "str_lt (x # xs) (y # ys) = (if x = y then str_lt xs ys else x < y)"

fun elem_lt :: "key_elem \<Rightarrow> key_elem \<Rightarrow> exn + bool" where
  "elem_lt (KInt a) (KInt b) = Inr (a < b)"
| "elem_lt (KStr a) (KStr b) = Inr (str_lt a b)"
| "elem_lt (KInt a) (KStr b) =
     Inl (TypeError (ustr ''< not supported between instances of int and str''))"
| "elem_lt (KStr a) (KInt b) =
     Inl (TypeError (ustr ''< not supported between instances of str and int''))"

fun key_lt :: "key_elem list \<Rightarrow> key_elem list \<Rightarrow> exn + bool" where
  "key_lt [] [] = Inr False"
| "key_lt [] (y # ys) = Inr True"
| "key_lt (x # xs) [] = Inr False"
| "key_lt (x # xs) (y # ys) = (if x = y then key_lt xs ys else elem_lt x y)"

text \<open>
  \<open>list.sort(key=...)\<close> computes the key of every element first, then sorts by the
  keys with \<open><\<close> alone, keeping elements with equal keys in their order (it is
  stable). The order it produces is that of a stable insertion sort, which is how it is
  modelled; a comparison that raises ends the sort with that error.
\<close>

fun insert_keyed :: "key_elem list \<times> 'a \<Rightarrow> (key_elem list \<times> 'a) list \<Rightarrow> exn + (key_elem list \<times> 'a) list" where
  "insert_keyed x [] = Inr [x]"
| "insert_keyed x (y # ys) =
     (case key_lt (fst y) (fst x) of
        Inl e \<Rightarrow> Inl e
      | Inr True \<Rightarrow> (case insert_keyed x ys of Inl e \<Rightarrow> Inl e | Inr r \<Rightarrow> Inr (y # r))
      | Inr False \<Rightarrow> Inr (x # y # ys))"

fun sort_keyed :: "(key_elem list \<times> 'a) list \<Rightarrow> exn + (key_elem list \<times> 'a) list" where
  "sort_keyed [] = Inr []"
| "sort_keyed (x # xs) =
     (case sort_keyed xs of Inl e \<Rightarrow> Inl e | Inr r \<Rightarrow> insert_keyed x r)"

fun with_keys :: "unicode_db \<Rightarrow> ustring list \<Rightarrow> exn + (key_elem list \<times> ustring) list" where
  "with_keys U [] = Inr []"
| "with_keys U (s # ss) =
     (case natural_sort_key U s of
        Inl e \<Rightarrow> Inl e
      | Inr k \<Rightarrow> (case with_keys U ss of Inl e \<Rightarrow> Inl e | Inr r \<Rightarrow> Inr ((k, s) # r)))"

definition natural_sort :: "unicode_db \<Rightarrow> ustring list \<Rightarrow> exn + ustring list" where
  "natural_sort U names =
     (case with_keys U names of
        Inl e \<Rightarrow> Inl e
      | Inr keyed \<Rightarrow> (case sort_keyed keyed of Inl e \<Rightarrow> Inl e | Inr r \<Rightarrow> Inr (map snd r)))"

section \<open>JSON records\<close>

text \<open>
  \<open>json.dump(obj, file, indent=2)\<close> for the objects the scripts write: strings,
  integers and dictionaries with string keys. With the default \<open>ensure_ascii\<close> every
  code point outside the printable ASCII range is escaped, those beyond the basic
  plane as a surrogate pair.
\<close>

datatype json = JString ustring | JInt int | JObject "(ustring \<times> json) list"

definition hex_digit :: "nat \<Rightarrow> nat" where
  "hex_digit n = (if n < 10 then 48 + n else 87 + n)"

definition hex4 :: "nat \<Rightarrow> ustring" where
  "hex4 n = [hex_digit (n div 4096 mod 16), hex_digit (n div 256 mod 16),
             hex_digit (n div 16 mod 16), hex_digit (n mod 16)]"

definition json_escape :: "nat \<Rightarrow> ustring" where
  "json_escape c =
     (if c = 34 then [92, 34]
      else if c = 92 then [92, 92]
      else if c = 10 then [92, 110]
      else if c = 13 then [92, 114]
      else if c = 9 then [92, 116]
      else if c = 8 then [92, 98]
      else if c = 12 then [92, 102]
      else if 32 \<le> c \<and> c \<le> 126 then [c]
      else if c < 65536 then [92, 117] @ hex4 c
      else [92, 117] @ hex4 (55296 + (c - 65536) div 1024) @
           [92, 117] @ hex4 (56320 + (c - 65536) mod 1024))"

definition json_string :: "ustring \<Rightarrow> ustring" where
  "json_string s = [34] @ concat (map json_escape s) @ [34]"

fun join :: "ustring \<Rightarrow> ustring list \<Rightarrow> ustring" where
  "join sep [] = []"
| "join sep [x] = x"
| "join sep (x # y # ys) = x @ sep @ join sep (y # ys)"

fun json_dumps :: "nat \<Rightarrow> json \<Rightarrow> ustring" where
  "json_dumps n (JString s) = json_string s"
| "json_dumps n (JInt i) = str_int i"
| "json_dumps n (JObject []) = ustr ''{}''"
| "json_dumps n (JObject (kv # kvs)) =
     ustr ''{'' @ [10] @
     join (ustr '','' @ [10])
       (map (\<lambda>p. replicate (n + 2) 32 @ json_string (fst p) @ ustr '': '' @
                   json_dumps (n + 2) (snd p)) (kv # kvs)) @
     [10] @ replicate n 32 @ ustr ''}''"

text \<open>
  \<open>dict(results)\<close>: a key keeps the place of its first occurrence and the value of
  its last.
\<close>

fun put :: "'k \<Rightarrow> 'v \<Rightarrow> ('k \<times> 'v) list \<Rightarrow> ('k \<times> 'v) list" where
  "put k v [] = [(k, v)]"
| "put k v ((k', v') # kvs) = (if k' = k then (k, v) # kvs else (k', v') # put k v kvs)"

definition py_dict :: "('k \<times> 'v) list \<Rightarrow> ('k \<times> 'v) list" where
  "py_dict kvs = foldl (\<lambda>acc kv. put (fst kv) (snd kv) acc) [] kvs"

section \<open>The output directory\<close>

text \<open>
  The state the scripts change is the output directory. \<open>files\<close> are its regular
  files, name and text, in the order \<open>os.listdir\<close> returns them (an order the
  operating system chooses; a new file is taken to come last). \<open>error_files\<close> is the
  content of the sub-directory \<open>errors\<close>, \<open>None\<close> while it does not exist.
  \<open>write_denied\<close> holds the paths, relative to the directory, at which
  \<open>open(path, 'w')\<close> raises (a path that is a directory, a missing permission), with
  \<open>errors\<close> itself among them when \<open>mkdir\<close> would raise (a regular file has the
  name, a missing permission); \<open>read_denied\<close> the names
  at which \<open>open(path, 'r')\<close> or the decoding in \<open>read\<close> raises. A write that is not
  refused stores the whole text.
\<close>

record out_dir =
  files :: "(ustring \<times> ustring) list"
  error_files :: "(ustring \<times> ustring) list option"
  write_denied :: "ustring set"
  read_denied :: "ustring set"

definition file_exists :: "out_dir \<Rightarrow> ustring \<Rightarrow> bool" where
  "file_exists d name = (map_of (files d) name \<noteq> None)"

definition error_file_exists :: "out_dir \<Rightarrow> ustring \<Rightarrow> bool" where
  "error_file_exists d name =
     (case error_files d of None \<Rightarrow> False | Some es \<Rightarrow> map_of es name \<noteq> None)"

definition write_file :: "out_dir \<Rightarrow> ustring \<Rightarrow> ustring \<Rightarrow> exn + out_dir" where
  "write_file d name text =
     (if name \<in> write_denied d
      then Inl (OSError (ustr ''cannot open for writing: '' @ name))
      else Inr (d\<lparr>files := put name text (files d)\<rparr>))"

definition read_file :: "out_dir \<Rightarrow> ustring \<Rightarrow> exn + ustring" where
  "read_file d name =
     (if name \<in> read_denied d
      then Inl (OSError (ustr ''cannot read: '' @ name))
      else (case map_of (files d) name of
              None \<Rightarrow> Inl (OSError (ustr ''No such file or directory: '' @ name))
            | Some text \<Rightarrow> Inr text))"

text \<open>
  \<open>error_dir.mkdir(exist_ok=True)\<close>: nothing to do when the sub-directory exists;
  raises when it cannot be created (\<open>errors\<close> is then among the refused paths).
\<close>

definition mkdir_errors :: "out_dir \<Rightarrow> exn + out_dir" where
  "mkdir_errors d =
     (case error_files d of
        Some es \<Rightarrow> Inr d
      | None \<Rightarrow>
          (if ustr ''errors'' \<in> write_denied d
           then Inl (OSError (ustr ''cannot create directory: errors''))
           else Inr (d\<lparr>error_files := Some []\<rparr>)))"

definition write_error_file :: "out_dir \<Rightarrow> ustring \<Rightarrow> ustring \<Rightarrow> exn + out_dir" where
  "write_error_file d name text =
     (case error_files d of
        None \<Rightarrow> Inl (OSError (ustr ''No such file or directory: errors/'' @ name))
      | Some es \<Rightarrow>
          (if ustr ''errors/'' @ name \<in> write_denied d
           then Inl (OSError (ustr ''cannot open for writing: errors/'' @ name))
           else Inr (d\<lparr>error_files := Some (put name text es)\<rparr>)))"

definition listdir :: "out_dir \<Rightarrow> ustring list" where
  "listdir d =
     map fst (files d) @ (case error_files d of None \<Rightarrow> [] | Some es \<Rightarrow> [ustr ''errors''])"

section \<open>The per-item processor: \<open>process_page\<close>\<close>

datatype status = Completed | Skipped | Failed

fun status_str :: "status \<Rightarrow> ustring" where
  "status_str Completed = ustr ''completed''"
| "status_str Skipped = ustr ''skipped''"
| "status_str Failed = ustr ''failed''"

text \<open>
  The part of the \<open>try\<close> block after the translation has arrived: the output file,
  then the metadata beside it. For a page id from \<open>parse_ocr_file\<close> (no dot in it)
  \<open>with_suffix('.meta.json')\<close> turns \<open>page_N.txt\<close> into \<open>page_N.meta.json\<close>.
  \<open>now\<close> is what \<open>datetime.now().isoformat()\<close> returns during the call.
\<close>

definition save_translation ::
  "out_dir \<Rightarrow> ustring \<Rightarrow> ustring \<Rightarrow> ustring \<Rightarrow> ustring \<Rightarrow> ustring \<Rightarrow> out_dir \<times> (exn + unit)" where
  "save_translation d page_id text model now translation =
     (case write_file d (page_id @ ustr ''.txt'') translation of
        Inl e \<Rightarrow> (d, Inl e)
      | Inr d1 \<Rightarrow>
          (case write_file d1 (page_id @ ustr ''.meta.json'')
                  (json_dumps 0 (JObject
                     [(ustr ''source_page'', JString page_id),
                      (ustr ''translation_date'', JString now),
                      (ustr ''model'', JString model),
                      (ustr ''characters'', JInt (int (length text))),
                      (ustr ''status'', JString (ustr ''completed''))])) of
             Inl e \<Rightarrow> (d1, Inl e)
           | Inr d2 \<Rightarrow> (d2, Inr ())))"

text \<open>The \<open>except Exception\<close> block: an exception raised in it leaves \<open>process_page\<close>.\<close>

definition save_error :: "out_dir \<Rightarrow> ustring \<Rightarrow> ustring \<Rightarrow> exn \<Rightarrow> out_dir \<times> (exn + unit)" where
  "save_error d page_id now e =
     (case mkdir_errors d of
        Inl e1 \<Rightarrow> (d, Inl e1)
      | Inr d1 \<Rightarrow>
          (case write_error_file d1 (page_id @ ustr ''.error.json'')
                  (json_dumps 0 (JObject
                     [(ustr ''source_page'', JString page_id),
                      (ustr ''error_date'', JString now),
                      (ustr ''error_message'', JString (exn_str e)),
                      (ustr ''status'', JString (ustr ''failed''))])) of
             Inl e2 \<Rightarrow> (d1, Inl e2)
           | Inr d2 \<Rightarrow> (d2, Inr ())))"

text \<open>
  \<open>process_page\<close> returns the directory and the state of the service as it leaves
  them, the calls and sleeps it made, and either its pair of page id and status or the
  exception that leaves it.
\<close>

definition process_page ::
  "'c client \<Rightarrow> 'c \<Rightarrow> out_dir \<Rightarrow> ustring \<Rightarrow> ustring \<Rightarrow> ustring \<Rightarrow> bool \<Rightarrow> ustring \<Rightarrow>
     out_dir \<times> 'c \<times> event list \<times> (exn + ustring \<times> status)" where
  "process_page call c d page_id text model force_retranslate now =
     (if file_exists d (page_id @ ustr ''.txt'') \<and> \<not> force_retranslate
      then (d, c, [], Inr (page_id, Skipped))
      else (case translate_text call c text model default_max_retries default_retry_delay of
              (c', tr, res) \<Rightarrow>
                (case (case res of
                         Inl e \<Rightarrow> (d, Inl e)
                       | Inr translation \<Rightarrow> save_translation d page_id text model now translation) of
                   (d1, Inr u) \<Rightarrow> (d1, c', tr, Inr (page_id, Completed))
                 | (d1, Inl e) \<Rightarrow>
                     (case save_error d1 page_id now e of
                        (d2, Inr u) \<Rightarrow> (d2, c', tr, Inr (page_id, Failed))
                      | (d2, Inl e2) \<Rightarrow> (d2, c', tr, Inl e2)))))"

section \<open>The combiner: \<open>create_combined_translation\<close>\<close>

text \<open>\<open>s.replace(pat, "")\<close> for a pattern that is not empty.\<close>

fun remove_all :: "ustring \<Rightarrow> ustring \<Rightarrow> ustring" where
  "remove_all pat [] = []"
| "remove_all pat (c # cs) =
     (if starts_with pat (c # cs) then remove_all pat (drop (length pat - 1) cs)
      else c # remove_all pat cs)"

definition is_translation_file :: "ustring \<Rightarrow> bool" where
  "is_translation_file filename =
     (starts_with (ustr ''page_'') filename \<and> ends_with (ustr ''.txt'') filename \<and>
      \<not> ends_with (ustr ''.meta.json'') filename)"

text \<open>
  What the loop writes for one file: the delimiter line and an empty line, then the
  text of the file and two newlines; when reading raises, the error is logged and
  neither the text nor the newlines are written.
\<close>

definition combined_block :: "out_dir \<Rightarrow> ustring \<Rightarrow> ustring" where
  "combined_block d filename =
     ustr ''===== '' @ remove_all (ustr ''.txt'') filename @ ustr '' ====='' @ [10, 10] @
     (case read_file d filename of Inl e \<Rightarrow> [] | Inr text \<Rightarrow> text @ [10, 10])"

text \<open>
  The result is \<open>None\<close> when there is nothing to combine (a warning is logged and no
  file is written), the directory with the combined file otherwise.
\<close>

definition create_combined_translation :: "unicode_db \<Rightarrow> out_dir \<Rightarrow> exn + out_dir option" where
  "create_combined_translation U d =
     (case natural_sort U (filter is_translation_file (listdir d)) of
        Inl e \<Rightarrow> Inl e
      | Inr translation_files \<Rightarrow>
          (if translation_files = [] then Inr None
           else (case write_file d (ustr ''combined_translation.txt'')
                        (concat (map (combined_block d) translation_files)) of
                   Inl e \<Rightarrow> Inl e
                 | Inr d' \<Rightarrow> Inr (Some d'))))"

section \<open>The batch runner: \<open>main\<close>\<close>

text \<open>
  The worker pool is modelled for its default size of one worker: the pages are
  processed one after the other, in the order of the list, and \<open>executor.map\<close> gives
  the results in that order. An exception that leaves \<open>process_page\<close> is raised again
  by \<open>executor.map\<close> and leaves \<open>main\<close>. \<open>stamp i\<close> is the time stamp taken while
  page \<open>i\<close> is processed, \<open>stamp (length page_entries)\<close> that of the summary.
\<close>

fun process_all ::
  "'c client \<Rightarrow> 'c \<Rightarrow> out_dir \<Rightarrow> ustring \<Rightarrow> bool \<Rightarrow> (nat \<Rightarrow> ustring) \<Rightarrow> nat \<Rightarrow>
     (ustring \<times> ustring) list \<Rightarrow> exn + out_dir \<times> 'c \<times> event list \<times> (ustring \<times> status) list" where
  "process_all call c d model force stamp i [] = Inr (d, c, [], [])"
| "process_all call c d model force stamp i ((page_id, text) # rest) =
     (case process_page call c d page_id text model force (stamp i) of
        (d1, c1, tr1, Inl e) \<Rightarrow> Inl e
      | (d1, c1, tr1, Inr result) \<Rightarrow>
          (case process_all call c1 d1 model force stamp (Suc i) rest of
             Inl e \<Rightarrow> Inl e
           | Inr (d2, c2, tr2, results) \<Rightarrow> Inr (d2, c2, tr1 @ tr2, result # results)))"

definition count_status :: "status \<Rightarrow> (ustring \<times> status) list \<Rightarrow> nat" where
  "count_status st results = length (filter (\<lambda>r. snd r = st) results)"

record args =
  ocr_file :: ustring
  output_directory :: ustring
  model_name :: ustring
  force :: bool
  pages :: "ustring list"
  create_combined :: bool

definition summary_of :: "args \<Rightarrow> ustring \<Rightarrow> nat \<Rightarrow> (ustring \<times> status) list \<Rightarrow> json" where
  "summary_of a now total_pages results =
     JObject
       [(ustr ''timestamp'', JString now),
        (ustr ''ocr_file'', JString (ocr_file a)),
        (ustr ''output_directory'', JString (output_directory a)),
        (ustr ''model'', JString (model_name a)),
        (ustr ''total_pages'', JInt (int total_pages)),
        (ustr ''completed'', JInt (int (count_status Completed results))),
        (ustr ''skipped'', JInt (int (count_status Skipped results))),
        (ustr ''failed'', JInt (int (count_status Failed results))),
        (ustr ''results'', JObject (map (\<lambda>r. (fst r, JString (status_str (snd r)))) (py_dict results)))]"

record 'c batch_result =
  final_dir :: out_dir
  final_client :: 'c
  trace :: "event list"
  results :: "(ustring \<times> status) list"
  summary :: json

text \<open>
  \<open>main\<close> from the dispatch on: the pool, the summary and its file, then the
  combined file when it is asked for and at least one page was completed in this run.
\<close>

definition run_batch ::
  "unicode_db \<Rightarrow> 'c client \<Rightarrow> 'c \<Rightarrow> out_dir \<Rightarrow> args \<Rightarrow> (nat \<Rightarrow> ustring) \<Rightarrow>
     (ustring \<times> ustring) list \<Rightarrow> exn + 'c batch_result" where
  "run_batch U call c d a stamp page_entries =
     (case process_all call c d (model_name a) (force a) stamp 0 page_entries of
        Inl e \<Rightarrow> Inl e
      | Inr (d1, c1, tr, rs) \<Rightarrow>
          (let s = summary_of a (stamp (length page_entries)) (length page_entries) rs in
           case write_file d1 (ustr ''translation_summary.json'') (json_dumps 0 s) of
             Inl e \<Rightarrow> Inl e
           | Inr d2 \<Rightarrow>
               (if create_combined a \<and> 0 < count_status Completed rs
                then (case create_combined_translation U d2 of
                        Inl e \<Rightarrow> Inl e
                      | Inr None \<Rightarrow>
                          Inr \<lparr>final_dir = d2, final_client = c1, trace = tr, results = rs, summary = s\<rparr>
                      | Inr (Some d3) \<Rightarrow>
                          Inr \<lparr>final_dir = d3, final_client = c1, trace = tr, results = rs, summary = s\<rparr>)
                else Inr \<lparr>final_dir = d2, final_client = c1, trace = tr, results = rs, summary = s\<rparr>)))"

text \<open>
  \<open>main\<close> from the parsing of the input on (the command line, the creation of the
  output directory and of the client come before). It stops with a logged error when
  no page was parsed, or when a selection of pages was asked for and none of them is
  among the parsed ones.
\<close>

datatype 'c outcome = Stopped ustring | Crashed exn | Done "'c batch_result"

definition main ::
  "unicode_db \<Rightarrow> (ustring \<Rightarrow> exn + ustring) \<Rightarrow> 'c client \<Rightarrow> 'c \<Rightarrow> out_dir \<Rightarrow> args \<Rightarrow>
     (nat \<Rightarrow> ustring) \<Rightarrow> 'c outcome" where
  "main U read_text call c d a stamp =
     (let page_entries = fst (parse_ocr_file U read_text (ocr_file a)) in
      if page_entries = [] then Stopped (ustr ''No pages found in OCR file '' @ ocr_file a)
      else (let selected = (if pages a \<noteq> []
                            then filter (\<lambda>p. fst p \<in> set (pages a)) page_entries
                            else page_entries)
            in if selected = [] then Stopped (ustr ''None of the specified pages were found'')
               else (case run_batch U call c d a stamp selected of
                       Inl e \<Rightarrow> Crashed e
                     | Inr r \<Rightarrow> Done r)))"

section \<open>Stand-ins for the remote service\<close>

text \<open>
  Two services to run the model with: one that plays a script of outcomes, call after
  call, whatever the request; one whose outcome depends on the page text alone.
\<close>

definition scripted_client :: "api_outcome list \<Rightarrow> nat client" where
  "scripted_client script n req =
     ((if n < length script then script ! n
       else Raises (ClientError (ustr ''script exhausted''))), Suc n)"

definition text_client :: "(ustring \<Rightarrow> api_outcome) \<Rightarrow> unit client" where
  "text_client f u req = (f (req_text req), u)"

text \<open>A service that answers every page with its text reversed.\<close>

definition reversing_client :: "unit client" where
  "reversing_client = text_client (\<lambda>t. Response [rev t])"

text \<open>
  An empty output directory in which every write is accepted; the same directory with
  the metadata file of \<open>page_1\<close> refused; the arguments and the pages of a small run.
\<close>

definition empty_dir :: out_dir where
  "empty_dir = \<lparr>files = [], error_files = None, write_denied = {}, read_denied = {}\<rparr>"


definition demo_args :: args where
  "demo_args = \<lparr>ocr_file = ustr ''ocr_results.txt'', output_directory = ustr ''out'',
                 model_name = ustr ''m'', force = False, pages = [], create_combined = True\<rparr>"

definition demo_entries :: "(ustring \<times> ustring) list" where
  "demo_entries = [(ustr ''page_1'', ustr ''abc''), (ustr ''page_2'', ustr ''de'')]"

section \<open>Input formats, for the statements\<close>

text \<open>
  The notions the properties below are stated with. \<open>header\<close> is the delimiter
  line of a page with its newline; \<open>page_id_ok\<close> holds of the ids the pattern
  recognises, \<open>page_\<close> and a run of decimal digits. \<open>render_blocks\<close> writes a list of
  blocks as a text: every block is its header followed by its body, and a newline
  separates a body from the next header. \<open>has_marker\<close> holds when a newline directly
  followed by \<open>=====\<close> occurs in a text, \<open>no_marker_line\<close> when no line of a text
  begins with \<open>=====\<close>.
\<close>

definition header :: "ustring \<Rightarrow> ustring" where
  "header page_id = ustr ''===== '' @ page_id @ ustr '' ====='' @ [10]"

definition page_id_ok :: "unicode_db \<Rightarrow> ustring \<Rightarrow> bool" where
  "page_id_ok U page_id =
     (starts_with (ustr ''page_'') page_id \<and> drop 5 page_id \<noteq> [] \<and>
      list_all (re_digit U) (drop 5 page_id))"

fun render_blocks :: "(ustring \<times> ustring) list \<Rightarrow> ustring" where
  "render_blocks [] = []"
| "render_blocks [(page_id, body)] = header page_id @ body"
| "render_blocks ((page_id, body) # b # bs) = header page_id @ body @ [10] @ render_blocks (b # bs)"

fun has_marker :: "ustring \<Rightarrow> bool" where
  "has_marker [] = False"
| "has_marker (c # cs) = (starts_with (ustr ''\<newline>====='') (c # cs) \<or> has_marker cs)"



definition digits_value :: "ustring \<Rightarrow> nat" where
  "digits_value ds = foldl (\<lambda>a c. 10 * a + (c - 48)) 0 ds"


text \<open>
  More inputs to run the model with: a text of two blocks; a directory whose listing
  is not in page order; a service that rejects the text \<open>bad\<close> and reverses every
  other one, with two pages, the second of them \<open>bad\<close>; a directory that holds an
  output of \<open>page_2\<close> from an earlier run; a directory of outputs to combine.
\<close>

definition demo_blocks :: "(ustring \<times> ustring) list" where
  "demo_blocks = [(ustr ''page_1'', ustr ''ab\<newline>''), (ustr ''page_2'', ustr '' cd '')]"

definition unsorted_dir :: out_dir where
  "unsorted_dir =
     \<lparr>files = [(ustr ''page_10.txt'', ustr ''j''), (ustr ''page_1.txt'', ustr ''a''),
               (ustr ''page_1.meta.json'', ustr ''{}''),
               (ustr ''page_20.txt'', ustr ''t''), (ustr ''page_2.txt'', ustr ''b'')],
      error_files = None, write_denied = {}, read_denied = {}\<rparr>"





section \<open>Properties of the retry loop\<close>

text \<open>
  C1. With the default settings (\<open>max_retries = 3\<close>, \<open>retry_delay = 2\<close>), when the API
  call raises a rate-limit error on exactly the first two attempts and succeeds on the
  third, \<open>translate_text\<close> returns the text of the successful response, and the process
  sleeps 2 seconds before the second attempt and 4 seconds before the third.
\<close>

theorem translate_text_two_rate_limits:
  assumes "call c0 (mk_request model text) = (Raises (RateLimitError m1), c1)"
    and "call c1 (mk_request model text) = (Raises (RateLimitError m2), c2)"
    and "call c2 (mk_request model text) = (Response (t # bs), c3)"
  shows "translate_text call c0 text model default_max_retries default_retry_delay =
           (c3, [ApiCall (mk_request model text), Sleep 2,
                 ApiCall (mk_request model text), Sleep 4,
                 ApiCall (mk_request model text)], Inr t)"
proof -
  have n: "nat default_max_retries = Suc (Suc (Suc 0))"
    by (simp add: default_max_retries_def)
  show ?thesis
    using assms
    by (simp add: translate_text_def n try_call_def prepend_def default_retry_delay_def)
qed

theorem translate_text_two_rate_limits_witness:
  "translate_text
     (scripted_client [Raises (RateLimitError (ustr ''429'')),
                       Raises (RateLimitError (ustr ''429'')), Response [ustr ''ok'']])
     0 (ustr ''salam'') (ustr ''m'') default_max_retries default_retry_delay =
   (3, [ApiCall (mk_request (ustr ''m'') (ustr ''salam'')), Sleep 2,
        ApiCall (mk_request (ustr ''m'') (ustr ''salam'')), Sleep 4,
        ApiCall (mk_request (ustr ''m'') (ustr ''salam''))], Inr (ustr ''ok''))"
  using translate_text_two_rate_limits
    [of "scripted_client [Raises (RateLimitError (ustr ''429'')),
                          Raises (RateLimitError (ustr ''429'')), Response [ustr ''ok'']]"
        0 "ustr ''m''" "ustr ''salam''" "ustr ''429''" 1 "ustr ''429''" 2 "ustr ''ok''" "[]" 3]
  by (simp add: scripted_client_def)







lemma translate_text_fatal:
  assumes "0 < max_retries"
    and "call c0 (mk_request model body) = (Raises e, c1)"
    and "fatal e"
  shows "translate_text call c0 body model max_retries retry_delay =
           (c1, [ApiCall (mk_request model body)], Inl e)"
proof -
  obtain n where n: "nat max_retries = Suc n" using assms(1) by (cases "nat max_retries") auto
  show ?thesis using assms(2,3)
    by (cases e) (simp_all add: translate_text_def n try_call_def)
qed

text \<open>
  C5. When the first attempt raises an error that is neither a rate-limit error nor an
  API error, the client makes that one call, does not sleep, and raises the error.
\<close>

theorem translate_text_fatal_no_retry:
  assumes "0 < max_retries"
    and "call c0 (mk_request model text) = (Raises e, c1)"
    and "fatal e"
  shows "translate_text call c0 text model max_retries retry_delay =
           (c1, [ApiCall (mk_request model text)], Inl e)"
  using assms by (rule translate_text_fatal)

theorem translate_text_fatal_no_retry_witness:
  "(0::int) < 3 \<and> fatal (ClientError (ustr ''bad request'')) \<and>
   translate_text (scripted_client [Raises (ClientError (ustr ''bad request''))]) 0
     (ustr ''salam'') (ustr ''m'') 3 2 =
   (1, [ApiCall (mk_request (ustr ''m'') (ustr ''salam''))],
    Inl (ClientError (ustr ''bad request'')))"
  using translate_text_fatal_no_retry
    [of 3 "scripted_client [Raises (ClientError (ustr ''bad request''))]" 0
        "ustr ''m''" "ustr ''salam''" "ClientError (ustr ''bad request'')" 1 2]
  by (simp add: scripted_client_def)

section \<open>Properties of the work-item source\<close>

text \<open>
  C10. When the input file cannot be opened or decoded, \<open>parse_ocr_file\<close> raises
  nothing: it logs one error record and returns the empty list, and \<open>main\<close>, finding
  no page, stops with its own message before any page is processed.
\<close>

theorem parse_ocr_file_unreadable:
  assumes "read_text (ocr_file a) = Inl e"
  shows "parse_ocr_file U read_text (ocr_file a) =
           ([], [(ERROR, ustr ''Failed to parse OCR file '' @ ocr_file a @ ustr '': '' @
                         exn_str e)]) \<and>
         main U read_text call c d a stamp =
           Stopped (ustr ''No pages found in OCR file '' @ ocr_file a)"
  using assms by (simp add: parse_ocr_file_def main_def)

theorem parse_ocr_file_unreadable_witness:
  "parse_ocr_file latin1_db (\<lambda>p. Inl (OSError (ustr ''No such file''))) (ocr_file demo_args) =
     ([], [(ERROR, ustr ''Failed to parse OCR file '' @ ocr_file demo_args @ ustr '': '' @
                   exn_str (OSError (ustr ''No such file'')))]) \<and>
   main latin1_db (\<lambda>p. Inl (OSError (ustr ''No such file''))) reversing_client () empty_dir
     demo_args (\<lambda>i. ustr ''2025'') =
     Stopped (ustr ''No pages found in OCR file '' @ ocr_file demo_args)"
  using parse_ocr_file_unreadable
    [of "\<lambda>p. Inl (OSError (ustr ''No such file''))" demo_args "OSError (ustr ''No such file'')"
        latin1_db reversing_client "()" empty_dir "\<lambda>i. ustr ''2025''"]
  by simp

lemma starts_with_iff: "starts_with p s = (\<exists>r. s = p @ r)"
proof
  assume "starts_with p s"
  then have "s = p @ drop (length p) s"
    unfolding starts_with_def by (metis append_take_drop_id)
  then show "\<exists>r. s = p @ r" ..
next
  assume "\<exists>r. s = p @ r"
  then show "starts_with p s" by (auto simp: starts_with_def)
qed

lemma starts_with_append [simp]: "starts_with p (p @ r)"
  by (simp add: starts_with_def)

lemma marker_eq: "ustr ''\<newline>====='' = [10, 61, 61, 61, 61, 61]"
  by (simp add: ustr_def)


lemma marker_straddle:
  assumes "starts_with (ustr ''\<newline>====='') (xs @ m)" and "xs \<noteq> []"
    and "\<not> starts_with (ustr ''\<newline>====='') xs"
  shows "m \<noteq> [] \<and> hd m = 61"
proof -
  from assms(1) obtain r where r: "xs @ m = [10, 61, 61, 61, 61, 61] @ r"
    unfolding starts_with_iff marker_eq by blast
  then obtain us where us:
    "(xs = [10, 61, 61, 61, 61, 61] @ us \<and> us @ m = r) \<or>
     (xs @ us = [10, 61, 61, 61, 61, 61] \<and> m = us @ r)"
    unfolding append_eq_append_conv2 by blast
  have no: "\<not> (\<exists>r. xs = [10, 61, 61, 61, 61, 61] @ r)"
    using assms(3) unfolding starts_with_iff marker_eq by simp
  from us no have split: "xs @ us = [10, 61, 61, 61, 61, 61]" and m: "m = us @ r" by auto
  have "us \<noteq> []" using split no by auto
  obtain x xs' where xs: "xs = x # xs'" using assms(2) by (cases xs) auto
  have "xs' @ us = [61, 61, 61, 61, 61]" using split xs by simp
  then have "set us \<subseteq> {61}" by (metis set_append Un_upper2 list.set(1,2) insert_absorb2 empty_set)
  with \<open>us \<noteq> []\<close> have "hd us = 61" by (metis hd_in_set singletonD subsetD)
  with \<open>us \<noteq> []\<close> m show ?thesis by simp
qed

lemma lazy_body_append:
  assumes "\<not> has_marker b" and "m = [] \<or> hd m = 10"
  shows "lazy_body (b @ m) = b @ lazy_body m"
  using assms
proof (induction b)
  case Nil
  then show ?case by simp
next
  case (Cons c cs)
  have "\<not> starts_with (ustr ''\<newline>====='') ((c # cs) @ m)"
  proof
    assume "starts_with (ustr ''\<newline>====='') ((c # cs) @ m)"
    from marker_straddle [OF this] Cons.prems show False by auto
  qed
  then show ?case using Cons by simp
qed

lemma lazy_body_marker: "starts_with (ustr ''\<newline>====='') m \<Longrightarrow> lazy_body m = []"
  by (cases m) auto

lemma lazy_body_whole: "\<not> has_marker b \<Longrightarrow> lazy_body b = b"
  using lazy_body_append [of b "[]"] by simp

lemma not_re_digit_space: "\<not> re_digit U 32"
  by (simp add: re_digit_def decimal_value_def ascii_digit_def)

lemma page_id_okD:
  assumes "page_id_ok U page_id"
  obtains ds where "page_id = ustr ''page_'' @ ds" "ds \<noteq> []" "list_all (re_digit U) ds"
proof -
  from assms obtain r where r: "page_id = ustr ''page_'' @ r"
    unfolding page_id_ok_def starts_with_iff by blast
  have "length (ustr ''page_'') = 5" by (simp add: ustr_def)
  then have d: "drop 5 page_id = r" using r by simp
  have "r \<noteq> []" "list_all (re_digit U) r"
    using assms d unfolding page_id_ok_def by simp_all
  with r show ?thesis by (rule that)
qed

lemma match_page_raw:
  assumes "ds \<noteq> []" and "list_all (re_digit U) ds"
  shows "match_page U (ustr ''===== page_'' @ ds @ ustr '' =====\<newline>'' @ rest) =
           Some (ustr ''page_'' @ ds, lazy_body rest, 11 + length ds + 7 + length (lazy_body rest))"
proof -
  let ?s = "ustr ''===== page_'' @ ds @ ustr '' =====\<newline>'' @ rest"
  have len: "length (ustr ''===== page_'') = 11" by (simp add: ustr_def)
  have dr: "drop 11 ?s = ds @ ustr '' =====\<newline>'' @ rest"
    using len by simp
  have all: "\<forall>x\<in>set ds. re_digit U x" using assms(2) by (simp add: list_all_iff)
  have sp: "ustr '' =====\<newline>'' @ rest = 32 # (ustr ''=====\<newline>'' @ rest)"
    by (simp add: ustr_def)
  have tw: "takeWhile (re_digit U) (ds @ ustr '' =====\<newline>'' @ rest) = ds"
    unfolding sp using all not_re_digit_space by (simp add: takeWhile_append2)
  have dw: "dropWhile (re_digit U) (ds @ ustr '' =====\<newline>'' @ rest) = ustr '' =====\<newline>'' @ rest"
    unfolding sp using all not_re_digit_space by (simp add: dropWhile_append2)
  have len7: "length (ustr '' =====\<newline>'') = 7" by (simp add: ustr_def)
  have d7: "drop 7 (ustr '' =====\<newline>'' @ rest) = rest" using len7 by simp
  have sw: "starts_with (ustr ''===== page_'') ?s" by simp
  have sw2: "starts_with (ustr '' =====\<newline>'') (ustr '' =====\<newline>'' @ rest)" by simp
  have "match_page U ?s =
          (let r1 = drop 11 ?s;
                ds' = takeWhile (re_digit U) r1;
                r2 = dropWhile (re_digit U) r1
            in if ds' \<noteq> [] \<and> starts_with (ustr '' =====\<newline>'') r2
               then (let body = lazy_body (drop 7 r2)
                     in Some (ustr ''page_'' @ ds', body, 11 + length ds' + 7 + length body))
               else None)"
    unfolding match_page_def using sw by (simp only: if_True)
  also have "\<dots> = Some (ustr ''page_'' @ ds, lazy_body rest, 11 + length ds + 7 + length (lazy_body rest))"
    unfolding Let_def dr tw dw d7 using sw2 assms(1) by (simp only: simp_thms if_True)
  finally show ?thesis .
qed

lemma match_page_header:
  assumes "page_id_ok U page_id"
  shows "match_page U (header page_id @ rest) =
           Some (page_id, lazy_body rest, length (header page_id) + length (lazy_body rest))"
proof -
  from assms obtain ds where ds: "page_id = ustr ''page_'' @ ds" "ds \<noteq> []" "list_all (re_digit U) ds"
    by (rule page_id_okD)
  have h: "header page_id @ rest = ustr ''===== page_'' @ ds @ ustr '' =====\<newline>'' @ rest"
    by (simp add: header_def ds ustr_def)
  have lh: "length (header page_id) = 11 + length ds + 7"
    by (simp add: header_def ds ustr_def)
  show ?thesis
    unfolding h lh using match_page_raw [OF ds(2,3), of rest] ds(1) by simp
qed

lemma match_page_newline: "match_page U (10 # cs) = None"
  by (simp add: match_page_def starts_with_def ustr_def)

lemma findall_pages_newline: "findall_pages U (10 # cs) = findall_pages U cs"
  by (simp add: match_page_newline)

lemma header_Cons: "header page_id = 61 # (ustr ''==== '' @ page_id @ ustr '' ====='' @ [10])"
  by (simp add: header_def ustr_def)

lemma findall_pages_header:
  assumes "page_id_ok U page_id"
  shows "findall_pages U (header page_id @ rest) =
           (page_id, lazy_body rest) # findall_pages U (drop (length (lazy_body rest)) rest)"
proof -
  obtain cs where cs: "header page_id = 61 # cs" using header_Cons by blast
  have lh: "length (header page_id) = Suc (length cs)" using cs by simp
  have "findall_pages U (61 # (cs @ rest)) =
          (page_id, lazy_body rest) #
          findall_pages U (drop (length (header page_id) + length (lazy_body rest) - 1) (cs @ rest))"
    using match_page_header [OF assms, of rest] cs by simp
  moreover have "drop (length (header page_id) + length (lazy_body rest) - 1) (cs @ rest) =
                 drop (length (lazy_body rest)) rest"
    using lh by simp
  ultimately show ?thesis using cs by simp
qed

lemma header_starts_marker: "starts_with (ustr ''\<newline>====='') (10 # header page_id @ rest)"
  by (simp add: header_def starts_with_def ustr_def)

lemma findall_pages_render:
  assumes "\<forall>p\<in>set blocks. page_id_ok U (fst p) \<and> \<not> has_marker (snd p)"
  shows "findall_pages U (render_blocks blocks) = blocks"
  using assms
proof (induction blocks rule: render_blocks.induct)
  case 1
  then show ?case by simp
next
  case (2 page_id body)
  then have ok: "page_id_ok U page_id" and nm: "\<not> has_marker body" by auto
  show ?case
    using findall_pages_header [OF ok, of body] lazy_body_whole [OF nm] 2 by simp
next
  case (3 page_id body b bs)
  then have ok: "page_id_ok U page_id" and nm: "\<not> has_marker body" by auto
  obtain p2 b2 where b: "b = (p2, b2)" by (cases b) auto
  let ?rest = "body @ [10] @ render_blocks (b # bs)"
  have rb: "render_blocks (b # bs) = header p2 @ drop (length (header p2)) (render_blocks (b # bs))"
    using b by (cases bs) auto
  have "starts_with (ustr ''\<newline>====='') ([10] @ render_blocks (b # bs))"
    using header_starts_marker [of p2] rb by (metis append_Cons append_Nil)
  then have lm: "lazy_body ([10] @ render_blocks (b # bs)) = []" by (rule lazy_body_marker)
  have lb: "lazy_body ?rest = body"
    using lazy_body_append [OF nm, of "[10] @ render_blocks (b # bs)"] lm by simp
  have "findall_pages U (render_blocks ((page_id, body) # b # bs)) =
          (page_id, body) # findall_pages U (10 # render_blocks (b # bs))"
    using findall_pages_header [OF ok, of ?rest] lb by simp
  also have "\<dots> = (page_id, body) # findall_pages U (render_blocks (b # bs))"
    by (simp only: findall_pages_newline)
  finally show ?case using 3 by simp
qed

lemma findall_pages_empty_iff:
  "findall_pages U s = [] \<longleftrightarrow> (\<forall>k<length s. match_page U (drop k s) = None)"
proof (induction s)
  case Nil
  then show ?case by simp
next
  case (Cons c cs)
  have shift: "(\<forall>k<length (c # cs). match_page U (drop k (c # cs)) = None) \<longleftrightarrow>
               match_page U (c # cs) = None \<and> (\<forall>k<length cs. match_page U (drop k cs) = None)"
    by (auto simp: less_Suc_eq_0_disj)
  show ?case
  proof (cases "match_page U (c # cs)")
    case None
    then show ?thesis using Cons shift by simp
  next
    case (Some m)
    then show ?thesis using shift by (cases m) auto
  qed
qed

text \<open>
  C6, as the code has it. Take an input that is a sequence of blocks, each a header
  line \<open>===== page_N =====\<close> (\<open>N\<close> a run of decimal digits) followed by a body,
  with a newline between a body and the next header, such that in no body a newline
  is directly followed by \<open>=====\<close>. Then \<open>parse_ocr_file\<close> returns one item per
  block, in the order of the input, each with the id of its header and its body
  stripped of surrounding whitespace. And whatever the input, the result is empty
  exactly when the header pattern matches at no position of it.
\<close>

theorem parse_ocr_file_blocks:
  assumes "read_text path = Inr content"
  shows "(content = render_blocks blocks \<and>
          (\<forall>p\<in>set blocks. page_id_ok U (fst p) \<and> \<not> has_marker (snd p)) \<longrightarrow>
            fst (parse_ocr_file U read_text path) = map (\<lambda>p. (fst p, strip (snd p))) blocks) \<and>
         (fst (parse_ocr_file U read_text path) = [] \<longleftrightarrow>
            (\<forall>k<length content. match_page U (drop k content) = None))"
proof (intro conjI impI)
  assume h: "content = render_blocks blocks \<and>
          (\<forall>p\<in>set blocks. page_id_ok U (fst p) \<and> \<not> has_marker (snd p))"
  then have "findall_pages U content = blocks"
    using findall_pages_render [of blocks U] by simp
  then show "fst (parse_ocr_file U read_text path) = map (\<lambda>p. (fst p, strip (snd p))) blocks"
    using assms by (simp add: parse_ocr_file_def parse_ocr_content_def Let_def case_prod_beta)
next
  show "fst (parse_ocr_file U read_text path) = [] \<longleftrightarrow>
            (\<forall>k<length content. match_page U (drop k content) = None)"
    using assms findall_pages_empty_iff [of U content]
    by (simp add: parse_ocr_file_def parse_ocr_content_def Let_def)
qed

lemma demo_blocks_ok:
  "\<forall>p\<in>set demo_blocks. page_id_ok latin1_db (fst p) \<and> \<not> has_marker (snd p)"
  by code_simp

lemma demo_blocks_stripped:
  "map (\<lambda>p. (fst p, strip (snd p))) demo_blocks = [(ustr ''page_1'', ustr ''ab''), (ustr ''page_2'', ustr ''cd'')]"
  by code_simp

lemma demo_blocks_text:
  "render_blocks demo_blocks = ustr ''===== page_1 =====\<newline>ab\<newline>\<newline>===== page_2 =====\<newline> cd ''"
  by code_simp

theorem parse_ocr_file_blocks_witness:
  "fst (parse_ocr_file latin1_db
         (\<lambda>p. Inr (ustr ''===== page_1 =====\<newline>ab\<newline>\<newline>===== page_2 =====\<newline> cd ''))
         (ustr ''ocr_results.txt'')) =
     [(ustr ''page_1'', ustr ''ab''), (ustr ''page_2'', ustr ''cd'')] \<and>
   fst (parse_ocr_file latin1_db (\<lambda>p. Inr (ustr ''no marker here'')) (ustr ''ocr_results.txt'')) = []"
proof -
  have first: "fst (parse_ocr_file latin1_db
         (\<lambda>p. Inr (ustr ''===== page_1 =====\<newline>ab\<newline>\<newline>===== page_2 =====\<newline> cd ''))
         (ustr ''ocr_results.txt'')) =
     [(ustr ''page_1'', ustr ''ab''), (ustr ''page_2'', ustr ''cd'')]"
    using parse_ocr_file_blocks
      [of "\<lambda>p. Inr (ustr ''===== page_1 =====\<newline>ab\<newline>\<newline>===== page_2 =====\<newline> cd '')"
          "ustr ''ocr_results.txt''"
          "ustr ''===== page_1 =====\<newline>ab\<newline>\<newline>===== page_2 =====\<newline> cd ''"
          demo_blocks latin1_db, THEN conjunct1]
      demo_blocks_ok demo_blocks_stripped demo_blocks_text
    by simp
  have "findall_pages latin1_db (ustr ''no marker here'') = []"
    by code_simp
  then have none: "\<forall>k<length (ustr ''no marker here'').
      match_page latin1_db (drop k (ustr ''no marker here'')) = None"
    by (simp only: findall_pages_empty_iff)
  have second: "fst (parse_ocr_file latin1_db (\<lambda>p. Inr (ustr ''no marker here'')) (ustr ''ocr_results.txt'')) = []"
    using parse_ocr_file_blocks
      [of "\<lambda>p. Inr (ustr ''no marker here'')" "ustr ''ocr_results.txt''" "ustr ''no marker here''"
          "[]" latin1_db, THEN conjunct2] none
    by simp
  from first second show ?thesis by simp
qed

text \<open>
  The claim C6 itself fails on three inputs. A block with an empty body, directly
  followed by the next header line: two well-formed blocks give one item, whose body
  is the second block. A body with a line that begins with \<open>=====\<close> and is no
  delimiter line: the body is cut there. A delimiter that does not begin its line,
  so that no line of the input is a well-formed marker: an item is returned.
\<close>

theorem parse_ocr_file_garbled:
  "fst (parse_ocr_file latin1_db
         (\<lambda>p. Inr (ustr ''===== page_1 =====\<newline>===== page_2 =====\<newline>b''))
         (ustr ''ocr_results.txt'')) =
     [(ustr ''page_1'', ustr ''===== page_2 =====\<newline>b'')] \<and>
   fst (parse_ocr_file latin1_db
         (\<lambda>p. Inr (ustr ''===== page_1 =====\<newline>a\<newline>=====x\<newline>b''))
         (ustr ''ocr_results.txt'')) =
     [(ustr ''page_1'', ustr ''a'')] \<and>
   fst (parse_ocr_file latin1_db
         (\<lambda>p. Inr (ustr ''x===== page_1 =====\<newline>body''))
         (ustr ''ocr_results.txt'')) =
     [(ustr ''page_1'', ustr ''body'')]"
  by code_simp

section \<open>Properties of the natural sort\<close>

lemma takeWhile_run:
  "\<forall>x\<in>set xs. P x \<Longrightarrow> ys = [] \<or> \<not> P (hd ys) \<Longrightarrow> takeWhile P (xs @ ys) = xs"
  by (cases ys) (simp_all add: takeWhile_append2)

lemma dropWhile_run:
  "\<forall>x\<in>set xs. P x \<Longrightarrow> ys = [] \<or> \<not> P (hd ys) \<Longrightarrow> dropWhile P (xs @ ys) = ys"
  by (cases ys) (simp_all add: dropWhile_append2)

lemma split_digit_runs_text:
  assumes "\<forall>x\<in>set t. \<not> ascii_digit x"
  shows "split_digit_runs t = [t]"
proof -
  have "takeWhile (\<lambda>c. \<not> ascii_digit c) t = t" "dropWhile (\<lambda>c. \<not> ascii_digit c) t = []"
    using assms by simp_all
  then show ?thesis by (simp add: split_digit_runs.simps [of t])
qed

lemma split_digit_runs_run:
  assumes "\<forall>x\<in>set t. \<not> ascii_digit x" and "run \<noteq> []" and "\<forall>x\<in>set run. ascii_digit x"
    and "rest = [] \<or> \<not> ascii_digit (hd rest)"
  shows "split_digit_runs (t @ run @ rest) = t # run # split_digit_runs rest"
proof -
  have hd: "run @ rest = [] \<or> \<not> \<not> ascii_digit (hd (run @ rest))"
    using assms(2,3) by (cases run) auto
  have tw: "takeWhile (\<lambda>c. \<not> ascii_digit c) (t @ run @ rest) = t"
    using takeWhile_run [of t "\<lambda>c. \<not> ascii_digit c" "run @ rest"] assms(1) hd by simp
  have dw: "dropWhile (\<lambda>c. \<not> ascii_digit c) (t @ run @ rest) = run @ rest"
    using dropWhile_run [of t "\<lambda>c. \<not> ascii_digit c" "run @ rest"] assms(1) hd by simp
  have tw2: "takeWhile ascii_digit (run @ rest) = run"
    using takeWhile_run [of run ascii_digit rest] assms(3,4) by simp
  have dw2: "dropWhile ascii_digit (run @ rest) = rest"
    using dropWhile_run [of run ascii_digit rest] assms(3,4) by simp
  show ?thesis
    using assms(2) by (simp add: split_digit_runs.simps [of "t @ run @ rest"] tw dw tw2 dw2)
qed

text \<open>
  Every string is a text without digits, or such a text, a run of digits and a
  shorter rest that does not begin with a digit.
\<close>

lemma digit_runs_cases:
  obtains (plain) "\<forall>x\<in>set q. \<not> ascii_digit x"
  | (runs) t run rest where "q = t @ run @ rest" "\<forall>x\<in>set t. \<not> ascii_digit x" "run \<noteq> []"
      "\<forall>x\<in>set run. ascii_digit x" "rest = [] \<or> \<not> ascii_digit (hd rest)" "length rest < length q"
proof (cases "\<forall>x\<in>set q. \<not> ascii_digit x")
  case True
  then show ?thesis by (rule plain)
next
  case False
  let ?t = "takeWhile (\<lambda>c. \<not> ascii_digit c) q"
  let ?r = "dropWhile (\<lambda>c. \<not> ascii_digit c) q"
  let ?run = "takeWhile ascii_digit ?r"
  let ?rest = "dropWhile ascii_digit ?r"
  have ne: "?r \<noteq> []" using False by (simp add: dropWhile_eq_Nil_conv)
  then have hd: "ascii_digit (hd ?r)" using hd_dropWhile [of "\<lambda>c. \<not> ascii_digit c" q] by simp
  have q: "q = ?t @ ?run @ ?rest" by simp
  have t: "\<forall>x\<in>set ?t. \<not> ascii_digit x" by (auto dest: set_takeWhileD)
  have run_ne: "?run \<noteq> []" using ne hd by (cases ?r) auto
  have run_digits: "\<forall>x\<in>set ?run. ascii_digit x" by (auto dest: set_takeWhileD)
  have rest: "?rest = [] \<or> \<not> ascii_digit (hd ?rest)"
    using hd_dropWhile [of ascii_digit ?r] by auto
  have "length q = length ?t + length ?run + length ?rest"
    by (metis q length_append add.assoc)
  then have len: "length ?rest < length q" using run_ne by (cases ?run) auto
  show ?thesis using q t run_ne run_digits rest len by (rule runs)
qed

lemma split_digit_runs_append:
  assumes "q = [] \<or> \<not> ascii_digit (last q)" and "R \<noteq> []" and "\<forall>x\<in>set R. ascii_digit x"
    and "t = [] \<or> \<not> ascii_digit (hd t)"
  shows "split_digit_runs (q @ R @ t) = split_digit_runs q @ R # split_digit_runs t"
  using assms(1)
proof (induction "length q" arbitrary: q rule: less_induct)
  case less
  show ?case
  proof (cases q rule: digit_runs_cases)
    case plain
    then show ?thesis
      using split_digit_runs_run [OF plain assms(2,3,4)] split_digit_runs_text [OF plain] by simp
  next
    case (runs tx rn rest)
    have rest_ne: "rest \<noteq> []"
    proof
      assume "rest = []"
      then have "last q = last rn" using runs(1,3) by simp
      moreover have "last rn \<in> set rn" using runs(3) by simp
      ultimately have "ascii_digit (last q)" using runs(4) by simp
      moreover have "q \<noteq> []" using runs(1,3) by simp
      ultimately show False using less.prems by simp
    qed
    have last: "rest = [] \<or> \<not> ascii_digit (last rest)"
      using less.prems runs(1) rest_ne by simp
    have hd1: "rest @ R @ t = [] \<or> \<not> ascii_digit (hd (rest @ R @ t))"
      using runs(5) rest_ne by simp
    have ih: "split_digit_runs (rest @ R @ t) = split_digit_runs rest @ R # split_digit_runs t"
      using less.hyps [OF runs(6) last] .
    have "split_digit_runs (q @ R @ t) = split_digit_runs (tx @ rn @ (rest @ R @ t))"
      using runs(1) by simp
    also have "\<dots> = tx # rn # split_digit_runs (rest @ R @ t)"
      using split_digit_runs_run [OF runs(2,3,4) hd1] .
    also have "\<dots> = (tx # rn # split_digit_runs rest) @ R # split_digit_runs t"
      using ih by simp
    also have "tx # rn # split_digit_runs rest = split_digit_runs q"
      using split_digit_runs_run [OF runs(2,3,4,5)] runs(1) by simp
    finally show ?thesis .
  qed
qed


lemma decimal_value_ascii: "ascii_digit c \<Longrightarrow> decimal_value U c = Some (c - 48)"
  by (simp add: decimal_value_def)

lemma decimal_of_ascii:
  "\<forall>x\<in>set ds. ascii_digit x \<Longrightarrow>
   decimal_of U acc ds = Some (foldl (\<lambda>a c. 10 * a + (c - 48)) acc ds)"
  by (induction ds arbitrary: acc) (simp_all add: decimal_value_ascii)

lemma key_elem_of_run:
  assumes "R \<noteq> []" and "\<forall>x\<in>set R. ascii_digit x"
  shows "key_elem_of U R = Inr (KInt (int (digits_value R)))"
proof -
  have "list_all (is_digit_char U) R"
    using assms(2) by (simp add: list_all_iff is_digit_char_def decimal_value_ascii)
  then have "str_isdigit U R" using assms(1) by (simp add: str_isdigit_def)
  then show ?thesis
    by (simp add: key_elem_of_def py_int_def decimal_of_ascii [OF assms(2)] digits_value_def)
qed

lemma key_elem_of_ascii_text:
  assumes "\<forall>c\<in>set t. c < 128 \<and> \<not> ascii_digit c"
  shows "key_elem_of U t = Inr (KStr (map ascii_lower t))"
proof -
  have "\<not> str_isdigit U t"
  proof (cases t)
    case Nil
    then show ?thesis by (simp add: str_isdigit_def)
  next
    case (Cons c cs)
    then have "c < 128" "\<not> ascii_digit c" using assms by auto
    then have "\<not> is_digit_char U c" by (simp add: is_digit_char_def decimal_value_def)
    then show ?thesis using Cons by (simp add: str_isdigit_def)
  qed
  moreover have "list_all (\<lambda>c. c < 128) t" using assms by (simp add: list_all_iff)
  ultimately show ?thesis by (simp add: key_elem_of_def str_lower_def)
qed

lemma key_elems_append:
  "key_elems U (xs @ ys) =
     (case key_elems U xs of
        Inl e \<Rightarrow> Inl e
      | Inr a \<Rightarrow> (case key_elems U ys of Inl e \<Rightarrow> Inl e | Inr b \<Rightarrow> Inr (a @ b)))"
  by (induction xs) (auto split: sum.splits)

lemma natural_sort_key_simple:
  assumes "\<forall>c\<in>set a. c < 128 \<and> \<not> ascii_digit c" and "ds \<noteq> []" and "\<forall>x\<in>set ds. ascii_digit x"
    and "\<forall>c\<in>set b. c < 128 \<and> \<not> ascii_digit c"
  shows "natural_sort_key U (a @ ds @ b) =
           Inr [KStr (map ascii_lower a), KInt (int (digits_value ds)), KStr (map ascii_lower b)]"
proof -
  have hd: "b = [] \<or> \<not> ascii_digit (hd b)" using assms(4) by (cases b) auto
  have a': "\<forall>x\<in>set a. \<not> ascii_digit x" and b': "\<forall>x\<in>set b. \<not> ascii_digit x"
    using assms(1,4) by auto
  have "split_digit_runs (a @ ds @ b) = [a, ds, b]"
    using split_digit_runs_run [OF a' assms(2,3) hd] split_digit_runs_text [OF b'] by simp
  then show ?thesis
    by (simp add: natural_sort_key_def key_elem_of_run [OF assms(2,3)]
          key_elem_of_ascii_text [OF assms(1)] key_elem_of_ascii_text [OF assms(4)])
qed







lemma foldl_digits:
  "foldl (\<lambda>a c. 10 * a + (c - 48)) acc ds =
     acc * 10 ^ length ds + foldl (\<lambda>a c. 10 * a + (c - 48)) 0 (ds :: nat list)"
proof (induction ds arbitrary: acc)
  case Nil
  then show ?case by simp
next
  case (Cons c ds)
  have "foldl (\<lambda>a c. 10 * a + (c - 48)) acc (c # ds) =
          (10 * acc + (c - 48)) * 10 ^ length ds + foldl (\<lambda>a c. 10 * a + (c - 48)) 0 ds"
    using Cons [of "10 * acc + (c - 48)"] by simp
  moreover have "foldl (\<lambda>a c. 10 * a + (c - 48)) 0 (c # ds) =
          (c - 48) * 10 ^ length ds + foldl (\<lambda>a c. 10 * a + (c - 48)) 0 ds"
    using Cons [of "c - 48"] by simp
  ultimately show ?case by (simp add: algebra_simps)
qed

lemma digits_value_append:
  "digits_value (a @ b) = digits_value a * 10 ^ length b + digits_value b"
  unfolding digits_value_def using foldl_digits [of "foldl (\<lambda>a c. 10 * a + (c - 48)) 0 a" b]
  by simp

lemma digits_value_two_ten:
  "digits_value (d @ ustr ''2'' @ e) < digits_value (d @ ustr ''10'' @ e)"
proof -
  have two: "digits_value (ustr ''2'') = 2" and ten: "digits_value (ustr ''10'') = 10"
    by (simp_all add: digits_value_def ustr_def)
  have l2: "length (ustr ''2'') = 1" and l10: "length (ustr ''10'') = 2"
    by (simp_all add: ustr_def)
  have a: "digits_value (d @ ustr ''2'' @ e) =
             (digits_value d * 10 + 2) * 10 ^ length e + digits_value e"
    using digits_value_append [of "d @ ustr ''2''" e] digits_value_append [of d "ustr ''2''"]
    by (simp add: two l2)
  have b: "digits_value (d @ ustr ''10'' @ e) =
             (digits_value d * 100 + 10) * 10 ^ length e + digits_value e"
    using digits_value_append [of "d @ ustr ''10''" e] digits_value_append [of d "ustr ''10''"]
    by (simp add: ten l10)
  have "digits_value d * 10 + 2 < digits_value d * 100 + 10" by simp
  then have "(digits_value d * 10 + 2) * 10 ^ length e < (digits_value d * 100 + 10) * 10 ^ length e"
    by (simp only: mult_less_cancel2) simp
  then show ?thesis unfolding a b by simp
qed

lemma key_lt_common_prefix: "key_lt (a @ x) (a @ y) = key_lt x y"
  by (induction a) simp_all

text \<open>
  A name cut around an embedded run: the digits that end the prefix and those that
  begin the suffix belong to the same run as the digits between them.
\<close>

lemma natural_sort_key_embedded:
  assumes "X \<noteq> []" and "\<forall>x\<in>set X. ascii_digit x"
  shows "natural_sort_key U (p @ X @ s) =
     (case key_elems U (split_digit_runs (rev (dropWhile ascii_digit (rev p)))) of
        Inl err \<Rightarrow> Inl err
      | Inr a \<Rightarrow>
         (case key_elems U (split_digit_runs (dropWhile ascii_digit s)) of
            Inl err \<Rightarrow> Inl err
          | Inr b \<Rightarrow>
              Inr (a @ KInt (int (digits_value
                     (rev (takeWhile ascii_digit (rev p)) @ X @ takeWhile ascii_digit s))) # b)))"
proof -
  let ?p0 = "rev (dropWhile ascii_digit (rev p))"
  let ?d = "rev (takeWhile ascii_digit (rev p))"
  let ?e = "takeWhile ascii_digit s"
  let ?s0 = "dropWhile ascii_digit s"
  let ?R = "?d @ X @ ?e"
  have p: "p = ?p0 @ ?d" by (metis rev_append rev_rev_ident takeWhile_dropWhile_id)
  have s: "s = ?e @ ?s0" by simp
  have whole: "p @ X @ s = ?p0 @ ?R @ ?s0"
    using p s by (metis append.assoc)
  have last: "?p0 = [] \<or> \<not> ascii_digit (last ?p0)"
    using hd_dropWhile [of ascii_digit "rev p"] by (auto simp: last_rev)
  have hd: "?s0 = [] \<or> \<not> ascii_digit (hd ?s0)"
    using hd_dropWhile [of ascii_digit s] by auto
  have Rne: "?R \<noteq> []" using assms(1) by simp
  have Rd: "\<forall>x\<in>set ?R. ascii_digit x"
    using assms(2) by (auto dest: set_takeWhileD)
  have "split_digit_runs (p @ X @ s) = split_digit_runs ?p0 @ ?R # split_digit_runs ?s0"
    unfolding whole using split_digit_runs_append [OF last Rne Rd hd] .
  then show ?thesis
    by (simp add: natural_sort_key_def key_elems_append key_elem_of_run [OF Rne Rd]
          split: sum.splits)
qed

lemma two_before_ten:
  assumes "natural_sort_key U (p @ ustr ''2'' @ s) = Inr k2"
  shows "\<exists>k10. natural_sort_key U (p @ ustr ''10'' @ s) = Inr k10 \<and>
               key_lt k2 k10 = Inr True \<and> key_lt k10 k2 = Inr False \<and>
               natural_sort U [p @ ustr ''10'' @ s, p @ ustr ''2'' @ s] =
                 Inr [p @ ustr ''2'' @ s, p @ ustr ''10'' @ s]"
proof -
  let ?d = "rev (takeWhile ascii_digit (rev p))"
  let ?e = "takeWhile ascii_digit s"
  have X2: "ustr ''2'' \<noteq> []" "\<forall>x\<in>set (ustr ''2''). ascii_digit x"
    and X10: "ustr ''10'' \<noteq> []" "\<forall>x\<in>set (ustr ''10''). ascii_digit x"
    by (simp_all add: ustr_def ascii_digit_def)
  note e2 = natural_sort_key_embedded [OF X2, of U p s]
  note e10 = natural_sort_key_embedded [OF X10, of U p s]
  from assms e2 obtain a b where
    a: "key_elems U (split_digit_runs (rev (dropWhile ascii_digit (rev p)))) = Inr a" and
    b: "key_elems U (split_digit_runs (dropWhile ascii_digit s)) = Inr b" and
    k2: "k2 = a @ KInt (int (digits_value (?d @ ustr ''2'' @ ?e))) # b"
    by (auto split: sum.splits)
  let ?k10 = "a @ KInt (int (digits_value (?d @ ustr ''10'' @ ?e))) # b"
  have k10: "natural_sort_key U (p @ ustr ''10'' @ s) = Inr ?k10"
    using e10 a b by simp
  have lt: "digits_value (?d @ ustr ''2'' @ ?e) < digits_value (?d @ ustr ''10'' @ ?e)"
    by (rule digits_value_two_ten)
  have c1: "key_lt k2 ?k10 = Inr True"
    unfolding k2 key_lt_common_prefix using lt by simp
  have c2: "key_lt ?k10 k2 = Inr False"
    unfolding k2 key_lt_common_prefix using lt by simp
  have "natural_sort U [p @ ustr ''10'' @ s, p @ ustr ''2'' @ s] =
          Inr [p @ ustr ''2'' @ s, p @ ustr ''10'' @ s]"
    by (simp add: natural_sort_def k10 assms c1)
  with k10 c1 c2 show ?thesis by blast
qed

lemma digit_text_key:
  assumes "\<forall>c\<in>set a. c < 128 \<and> \<not> ascii_digit c" and "\<forall>c\<in>set b. c < 128 \<and> \<not> ascii_digit c"
    and "map ascii_lower a = a" and "map ascii_lower b = b"
    and "ds \<noteq> []" and "\<forall>x\<in>set ds. ascii_digit x" and "digits_value ds = v"
    and "name = a @ ds @ b"
  shows "natural_sort_key U name = Inr [KStr a, KInt (int v), KStr b]"
  using natural_sort_key_simple [OF assms(1,5,6,2), of U] assms(3,4,7,8) by simp

lemma item_keys:
  "natural_sort_key U (ustr ''item_1'') = Inr [KStr (ustr ''item_''), KInt 1, KStr []]"
  "natural_sort_key U (ustr ''item_2'') = Inr [KStr (ustr ''item_''), KInt 2, KStr []]"
  "natural_sort_key U (ustr ''item_10'') = Inr [KStr (ustr ''item_''), KInt 10, KStr []]"
  "natural_sort_key U (ustr ''item_20'') = Inr [KStr (ustr ''item_''), KInt 20, KStr []]"
  using digit_text_key [of "ustr ''item_''" "[]" "ustr ''1''" 1 "ustr ''item_1''" U]
        digit_text_key [of "ustr ''item_''" "[]" "ustr ''2''" 2 "ustr ''item_2''" U]
        digit_text_key [of "ustr ''item_''" "[]" "ustr ''10''" 10 "ustr ''item_10''" U]
        digit_text_key [of "ustr ''item_''" "[]" "ustr ''20''" 20 "ustr ''item_20''" U]
  by (simp_all add: ustr_def ascii_digit_def ascii_lower_def digits_value_def)

lemma page_keys:
  "natural_sort_key U (ustr ''page_1.txt'') = Inr [KStr (ustr ''page_''), KInt 1, KStr (ustr ''.txt'')]"
  "natural_sort_key U (ustr ''page_2.txt'') = Inr [KStr (ustr ''page_''), KInt 2, KStr (ustr ''.txt'')]"
  "natural_sort_key U (ustr ''page_10.txt'') = Inr [KStr (ustr ''page_''), KInt 10, KStr (ustr ''.txt'')]"
  "natural_sort_key U (ustr ''page_20.txt'') = Inr [KStr (ustr ''page_''), KInt 20, KStr (ustr ''.txt'')]"
  using digit_text_key [of "ustr ''page_''" "ustr ''.txt''" "ustr ''1''" 1 "ustr ''page_1.txt''" U]
        digit_text_key [of "ustr ''page_''" "ustr ''.txt''" "ustr ''2''" 2 "ustr ''page_2.txt''" U]
        digit_text_key [of "ustr ''page_''" "ustr ''.txt''" "ustr ''10''" 10 "ustr ''page_10.txt''" U]
        digit_text_key [of "ustr ''page_''" "ustr ''.txt''" "ustr ''20''" 20 "ustr ''page_20.txt''" U]
  by (simp_all add: ustr_def ascii_digit_def ascii_lower_def digits_value_def)

lemma item_names_sorted:
  "natural_sort U [ustr ''item_10'', ustr ''item_1'', ustr ''item_20'', ustr ''item_2''] =
     Inr [ustr ''item_1'', ustr ''item_2'', ustr ''item_10'', ustr ''item_20'']"
  by (simp add: natural_sort_def item_keys)

lemma page_names_sorted:
  "natural_sort U [ustr ''page_10.txt'', ustr ''page_1.txt'', ustr ''page_20.txt'', ustr ''page_2.txt''] =
     Inr [ustr ''page_1.txt'', ustr ''page_2.txt'', ustr ''page_10.txt'', ustr ''page_20.txt'']"
  by (simp add: natural_sort_def page_keys)

lemma unsorted_dir_listing:
  "filter is_translation_file (listdir unsorted_dir) =
     [ustr ''page_10.txt'', ustr ''page_1.txt'', ustr ''page_20.txt'', ustr ''page_2.txt'']"
  by code_simp

lemma unsorted_dir_combined:
  "(case write_file unsorted_dir (ustr ''combined_translation.txt'')
           (concat (map (combined_block unsorted_dir)
              [ustr ''page_1.txt'', ustr ''page_2.txt'', ustr ''page_10.txt'', ustr ''page_20.txt''])) of
      Inl e \<Rightarrow> False
    | Inr d' \<Rightarrow> read_file d' (ustr ''combined_translation.txt'') =
        Inr (ustr ''===== page_1 =====\<newline>\<newline>a\<newline>\<newline>===== page_2 =====\<newline>\<newline>b\<newline>\<newline>===== page_10 =====\<newline>\<newline>j\<newline>\<newline>===== page_20 =====\<newline>\<newline>t\<newline>\<newline>''))"
  by code_simp

text \<open>
  C9. The sort the combiner applies to the file names compares embedded runs of
  digits by their value. The names \<open>item_10\<close>, \<open>item_1\<close>, \<open>item_20\<close>, \<open>item_2\<close> come
  out as \<open>item_1\<close>, \<open>item_2\<close>, \<open>item_10\<close>, \<open>item_20\<close>. In general, of two names that
  differ only in an embedded \<open>2\<close> against \<open>10\<close>, whatever stands before and after,
  the one with \<open>2\<close> has the smaller key and is sorted first (whenever its key is
  defined). And the combiner, on a directory that lists \<open>page_10.txt\<close>, \<open>page_1.txt\<close>,
  \<open>page_20.txt\<close>, \<open>page_2.txt\<close> in this order, writes the pages 1, 2, 10, 20 in this
  order.
\<close>

theorem natural_sort_numeric:
  "natural_sort U [ustr ''item_10'', ustr ''item_1'', ustr ''item_20'', ustr ''item_2''] =
     Inr [ustr ''item_1'', ustr ''item_2'', ustr ''item_10'', ustr ''item_20''] \<and>
   (natural_sort_key U (p @ ustr ''2'' @ s) = Inr k2 \<longrightarrow>
      (\<exists>k10. natural_sort_key U (p @ ustr ''10'' @ s) = Inr k10 \<and>
             key_lt k2 k10 = Inr True \<and> key_lt k10 k2 = Inr False \<and>
             natural_sort U [p @ ustr ''10'' @ s, p @ ustr ''2'' @ s] =
               Inr [p @ ustr ''2'' @ s, p @ ustr ''10'' @ s])) \<and>
   (case create_combined_translation U unsorted_dir of
      Inl e \<Rightarrow> False
    | Inr None \<Rightarrow> False
    | Inr (Some d') \<Rightarrow> read_file d' (ustr ''combined_translation.txt'') =
        Inr (ustr ''===== page_1 =====\<newline>\<newline>a\<newline>\<newline>===== page_2 =====\<newline>\<newline>b\<newline>\<newline>===== page_10 =====\<newline>\<newline>j\<newline>\<newline>===== page_20 =====\<newline>\<newline>t\<newline>\<newline>''))"
proof (intro conjI impI)
  show "natural_sort U [ustr ''item_10'', ustr ''item_1'', ustr ''item_20'', ustr ''item_2''] =
     Inr [ustr ''item_1'', ustr ''item_2'', ustr ''item_10'', ustr ''item_20'']"
    by (rule item_names_sorted)
next
  assume "natural_sort_key U (p @ ustr ''2'' @ s) = Inr k2"
  then show "\<exists>k10. natural_sort_key U (p @ ustr ''10'' @ s) = Inr k10 \<and>
             key_lt k2 k10 = Inr True \<and> key_lt k10 k2 = Inr False \<and>
             natural_sort U [p @ ustr ''10'' @ s, p @ ustr ''2'' @ s] =
               Inr [p @ ustr ''2'' @ s, p @ ustr ''10'' @ s]"
    by (rule two_before_ten)
next
  have ne: "[ustr ''page_1.txt'', ustr ''page_2.txt'', ustr ''page_10.txt'', ustr ''page_20.txt''] \<noteq> []"
    by simp
  show "case create_combined_translation U unsorted_dir of
      Inl e \<Rightarrow> False
    | Inr None \<Rightarrow> False
    | Inr (Some d') \<Rightarrow> read_file d' (ustr ''combined_translation.txt'') =
        Inr (ustr ''===== page_1 =====\<newline>\<newline>a\<newline>\<newline>===== page_2 =====\<newline>\<newline>b\<newline>\<newline>===== page_10 =====\<newline>\<newline>j\<newline>\<newline>===== page_20 =====\<newline>\<newline>t\<newline>\<newline>'')"
    using unsorted_dir_combined
    unfolding create_combined_translation_def unsorted_dir_listing page_names_sorted
    by (simp split: sum.splits)
qed

theorem natural_sort_numeric_witness:
  "natural_sort_key latin1_db (ustr ''page_'' @ ustr ''2'' @ ustr ''.txt'') =
     Inr [KStr (ustr ''page_''), KInt 2, KStr (ustr ''.txt'')] \<and>
   natural_sort latin1_db [ustr ''page_'' @ ustr ''10'' @ ustr ''.txt'',
                           ustr ''page_'' @ ustr ''2'' @ ustr ''.txt''] =
     Inr [ustr ''page_'' @ ustr ''2'' @ ustr ''.txt'', ustr ''page_'' @ ustr ''10'' @ ustr ''.txt'']"
proof -
  have k: "natural_sort_key latin1_db (ustr ''page_'' @ ustr ''2'' @ ustr ''.txt'') =
     Inr [KStr (ustr ''page_''), KInt 2, KStr (ustr ''.txt'')]"
    by code_simp
  from natural_sort_numeric
    [of latin1_db "ustr ''page_''" "ustr ''.txt''" "[KStr (ustr ''page_''), KInt 2, KStr (ustr ''.txt'')]"]
    k show ?thesis by blast
qed

section \<open>Properties of the per-item processor\<close>


lemma map_of_put: "map_of (put k v xs) k' = (if k' = k then Some v else map_of xs k')"
  by (induction xs) auto

lemma file_exists_write_file:
  "write_file d n t = Inr d' \<Longrightarrow> file_exists d' m = (m = n \<or> file_exists d m)"
  by (auto simp: write_file_def file_exists_def map_of_put split: if_splits)

lemma write_file_other_fields:
  "write_file d n t = Inr d' \<Longrightarrow>
     error_files d' = error_files d \<and> write_denied d' = write_denied d \<and> read_denied d' = read_denied d"
  by (auto simp: write_file_def split: if_splits)

lemma save_translation_cases:
  assumes "save_translation d page_id text model now translation = (d', r)"
  shows "error_files d' = error_files d \<and> write_denied d' = write_denied d \<and>
         read_denied d' = read_denied d \<and>
         (\<forall>m. file_exists d m \<longrightarrow> file_exists d' m) \<and>
         (r = Inr () \<longrightarrow> file_exists d' (page_id @ ustr ''.txt'')) \<and>
         (page_id @ ustr ''.txt'' \<in> write_denied d \<longrightarrow> d' = d \<and> r \<noteq> Inr ()) \<and>
         (page_id @ ustr ''.txt'' \<notin> write_denied d \<longrightarrow> page_id @ ustr ''.meta.json'' \<notin> write_denied d \<longrightarrow>
            r = Inr ())"
  using assms
  by (auto simp: save_translation_def write_file_def file_exists_def map_of_put
           split: sum.splits if_splits)

lemma save_error_cases:
  assumes "save_error d page_id now e = (d', r)"
  shows "files d' = files d \<and> write_denied d' = write_denied d \<and> read_denied d' = read_denied d \<and>
         (r = Inr () \<longrightarrow> error_file_exists d' (page_id @ ustr ''.error.json'')) \<and>
         (r \<noteq> Inr () \<longrightarrow> (\<forall>m. error_file_exists d' m = error_file_exists d m))"
  using assms
  by (auto simp: save_error_def mkdir_errors_def write_error_file_def error_file_exists_def
           map_of_put split: sum.splits if_splits option.splits)




lemma process_page_skip:
  "file_exists d (page_id @ ustr ''.txt'') \<Longrightarrow>
   process_page call c d page_id text model False now = (d, c, [], Inr (page_id, Skipped))"
  by (simp add: process_page_def)

lemma process_page_effect:
  assumes "process_page call c d page_id text model force_retranslate now = (d', c', tr, res)"
  shows "write_denied d' = write_denied d \<and> read_denied d' = read_denied d \<and>
         (\<forall>m. file_exists d m \<longrightarrow> file_exists d' m) \<and>
         (\<forall>st. res = Inr (page_id, st) \<longrightarrow> st \<noteq> Failed \<longrightarrow> file_exists d' (page_id @ ustr ''.txt'')) \<and>
         (\<forall>r. res = Inr r \<longrightarrow> fst r = page_id)"
proof (cases "file_exists d (page_id @ ustr ''.txt'') \<and> \<not> force_retranslate")
  case True
  with assms show ?thesis by (auto simp: process_page_def)
next
  case False
  obtain c1 tr1 r1 where tt:
    "translate_text call c text model default_max_retries default_retry_delay = (c1, tr1, r1)"
    by (cases "translate_text call c text model default_max_retries default_retry_delay") auto
  show ?thesis
  proof (cases r1)
    case (Inl e)
    obtain d2 r2 where se: "save_error d page_id now e = (d2, r2)"
      by (cases "save_error d page_id now e") auto
    from save_error_cases [OF se] assms False tt Inl se show ?thesis
      by (cases r2) (auto simp: process_page_def file_exists_def)
  next
    case (Inr translation)
    obtain d1 s1 where st: "save_translation d page_id text model now translation = (d1, s1)"
      by (cases "save_translation d page_id text model now translation") auto
    note sc = save_translation_cases [OF st]
    show ?thesis
    proof (cases s1)
      case (Inr u)
      with sc assms False tt \<open>r1 = Inr translation\<close> st show ?thesis
        by (auto simp: process_page_def)
    next
      case (Inl e)
      obtain d2 r2 where se: "save_error d1 page_id now e = (d2, r2)"
        by (cases "save_error d1 page_id now e") auto
      from save_error_cases [OF se] sc assms False tt \<open>r1 = Inr translation\<close> st Inl se
      show ?thesis
        by (cases r2) (auto simp: process_page_def file_exists_def)
    qed
  qed
qed

lemma process_all_skip:
  "\<forall>p\<in>set entries. file_exists d (fst p @ ustr ''.txt'') \<Longrightarrow>
   process_all call c d model False stamp i entries =
     Inr (d, c, [], map (\<lambda>p. (fst p, Skipped)) entries)"
  by (induction entries arbitrary: i) (auto simp: process_page_skip)

lemma process_all_effect:
  assumes "process_all call c d model frc stamp i entries = Inr (d', c', tr, rs)"
  shows "write_denied d' = write_denied d \<and> read_denied d' = read_denied d \<and>
         (\<forall>m. file_exists d m \<longrightarrow> file_exists d' m) \<and>
         map fst rs = map fst entries \<and>
         (\<forall>r\<in>set rs. snd r \<noteq> Failed \<longrightarrow> file_exists d' (fst r @ ustr ''.txt''))"
  using assms
proof (induction entries arbitrary: c d i d' c' tr rs)
  case Nil
  then show ?case by simp
next
  case (Cons p entries)
  obtain page_id body where p: "p = (page_id, body)" by (cases p) auto
  obtain d1 c1 tr1 res where pp:
    "process_page call c d page_id body model frc (stamp i) = (d1, c1, tr1, res)"
    by (cases "process_page call c d page_id body model frc (stamp i)") auto
  from Cons.prems p pp obtain result where res: "res = Inr result"
    by (cases res) auto
  obtain st where result: "result = (page_id, st)"
    using process_page_effect [OF pp] res by (cases result) auto
  from Cons.prems p pp res obtain d2 c2 tr2 rs2 where
    rec: "process_all call c1 d1 model frc stamp (Suc i) entries = Inr (d2, c2, tr2, rs2)"
    and out: "d' = d2" "rs = result # rs2"
    by (auto split: sum.splits)
  note ih = Cons.IH [OF rec]
  note pe = process_page_effect [OF pp]
  show ?case
    using ih pe out res result p by auto
qed






section \<open>Properties of the combiner\<close>




















section \<open>Properties of the batch runner\<close>

lemma create_combined_effect:
  assumes "create_combined_translation U d = Inr (Some d')"
  shows "write_denied d' = write_denied d \<and> read_denied d' = read_denied d \<and>
         error_files d' = error_files d \<and>
         (\<forall>m. file_exists d m \<longrightarrow> file_exists d' m)"
  using assms
  by (auto simp: create_combined_translation_def write_file_def file_exists_def map_of_put
           split: sum.splits if_splits)

lemma run_batch_effect:
  assumes "run_batch U call c d a stamp entries = Inr r"
  shows "write_denied (final_dir r) = write_denied d \<and>
         ustr ''translation_summary.json'' \<notin> write_denied d \<and>
         (\<forall>m. file_exists d m \<longrightarrow> file_exists (final_dir r) m) \<and>
         map fst (results r) = map fst entries \<and>
         (\<forall>x\<in>set (results r). snd x \<noteq> Failed \<longrightarrow> file_exists (final_dir r) (fst x @ ustr ''.txt''))"
proof -
  from assms obtain d1 c1 tr rs where
    pa: "process_all call c d (model_name a) (force a) stamp 0 entries = Inr (d1, c1, tr, rs)"
    by (auto simp: run_batch_def split: sum.splits)
  note pe = process_all_effect [OF pa]
  from assms pa obtain d2 where
    w: "write_file d1 (ustr ''translation_summary.json'')
          (json_dumps 0 (summary_of a (stamp (length entries)) (length entries) rs)) = Inr d2"
    by (auto simp: run_batch_def Let_def split: sum.splits)
  have wd: "ustr ''translation_summary.json'' \<notin> write_denied d1"
    using w by (auto simp: write_file_def split: if_splits)
  note we = file_exists_write_file [OF w] write_file_other_fields [OF w]
  have rs: "results r = rs"
    using assms pa w by (auto simp: run_batch_def Let_def split: sum.splits option.splits if_splits)
  consider (same) "final_dir r = d2" | (comb) d3 where
    "create_combined_translation U d2 = Inr (Some d3)" "final_dir r = d3"
    using assms pa w by (auto simp: run_batch_def Let_def split: sum.splits option.splits if_splits)
  then show ?thesis
  proof cases
    case same
    then show ?thesis using pe we wd rs by auto
  next
    case comb
    from create_combined_effect [OF comb(1)] comb(2) pe we wd rs show ?thesis by auto
  qed
qed

lemma count_status_all_skipped:
  "count_status st (map (\<lambda>p. (fst p, Skipped)) entries) = (if st = Skipped then length entries else 0)"
  by (induction entries) (auto simp: count_status_def)

text \<open>
  C2. A page whose output file exists is skipped when \<open>force_retranslate\<close> is false:
  \<open>process_page\<close> returns \<open>Skipped\<close>, leaves the directory and the service as they
  are and makes no call. So when a first run has ended with no page \<open>Failed\<close> (every
  page has its output file), a second run over the same pages without \<open>force\<close> makes
  no call, reports every page \<open>Skipped\<close>, and changes the directory in one place
  only, the summary file it writes again: every other file keeps its text.
\<close>

theorem skip_existing_and_rerun:
  "(file_exists d (page_id @ ustr ''.txt'') \<longrightarrow>
      process_page call c d page_id text model False now = (d, c, [], Inr (page_id, Skipped))) \<and>
   (run_batch U call1 c1 d0 a1 stamp1 entries = Inr r1 \<and>
    (\<forall>x\<in>set (results r1). snd x \<noteq> Failed) \<and> \<not> force a2 \<longrightarrow>
      run_batch U call2 c2 (final_dir r1) a2 stamp2 entries =
        Inr \<lparr>final_dir = (final_dir r1)\<lparr>files :=
                 put (ustr ''translation_summary.json'')
                   (json_dumps 0 (summary_of a2 (stamp2 (length entries)) (length entries)
                      (map (\<lambda>p. (fst p, Skipped)) entries)))
                   (files (final_dir r1))\<rparr>,
             final_client = c2, trace = [],
             results = map (\<lambda>p. (fst p, Skipped)) entries,
             summary = summary_of a2 (stamp2 (length entries)) (length entries)
                         (map (\<lambda>p. (fst p, Skipped)) entries)\<rparr> \<and>
      (\<forall>name. name \<noteq> ustr ''translation_summary.json'' \<longrightarrow>
         map_of (put (ustr ''translation_summary.json'')
                   (json_dumps 0 (summary_of a2 (stamp2 (length entries)) (length entries)
                      (map (\<lambda>p. (fst p, Skipped)) entries)))
                   (files (final_dir r1))) name = map_of (files (final_dir r1)) name))"
proof (intro conjI impI allI)
  assume "file_exists d (page_id @ ustr ''.txt'')"
  then show "process_page call c d page_id text model False now = (d, c, [], Inr (page_id, Skipped))"
    by (rule process_page_skip)
next
  assume h: "run_batch U call1 c1 d0 a1 stamp1 entries = Inr r1 \<and>
    (\<forall>x\<in>set (results r1). snd x \<noteq> Failed) \<and> \<not> force a2"
  note re = run_batch_effect [OF conjunct1 [OF h]]
  have ex: "\<forall>p\<in>set entries. file_exists (final_dir r1) (fst p @ ustr ''.txt'')"
  proof
    fix p assume "p \<in> set entries"
    then have "fst p \<in> set (map fst (results r1))" using re by simp
    then obtain x where "x \<in> set (results r1)" "fst x = fst p" by auto
    then show "file_exists (final_dir r1) (fst p @ ustr ''.txt'')" using re h by metis
  qed
  have wd: "ustr ''translation_summary.json'' \<notin> write_denied (final_dir r1)"
    using re by simp
  have f: "force a2 = False" using h by simp
  show "run_batch U call2 c2 (final_dir r1) a2 stamp2 entries =
        Inr \<lparr>final_dir = (final_dir r1)\<lparr>files :=
                 put (ustr ''translation_summary.json'')
                   (json_dumps 0 (summary_of a2 (stamp2 (length entries)) (length entries)
                      (map (\<lambda>p. (fst p, Skipped)) entries)))
                   (files (final_dir r1))\<rparr>,
             final_client = c2, trace = [],
             results = map (\<lambda>p. (fst p, Skipped)) entries,
             summary = summary_of a2 (stamp2 (length entries)) (length entries)
                         (map (\<lambda>p. (fst p, Skipped)) entries)\<rparr>"
    using wd by (simp add: run_batch_def f process_all_skip [OF ex] Let_def write_file_def
          count_status_all_skipped)
next
  fix name :: ustring
  assume "name \<noteq> ustr ''translation_summary.json''"
  then show "map_of (put (ustr ''translation_summary.json'')
                   (json_dumps 0 (summary_of a2 (stamp2 (length entries)) (length entries)
                      (map (\<lambda>p. (fst p, Skipped)) entries)))
                   (files (final_dir r1))) name = map_of (files (final_dir r1)) name"
    by (simp add: map_of_put)
qed

lemma demo_first_run:
  "(case run_batch latin1_db reversing_client () empty_dir demo_args (\<lambda>i. ustr ''2025'') demo_entries of
     Inl e \<Rightarrow> False
   | Inr r1 \<Rightarrow> results r1 = [(ustr ''page_1'', Completed), (ustr ''page_2'', Completed)] \<and>
        map_of (files (final_dir r1)) (ustr ''page_1.txt'') = Some (ustr ''cba''))"
  by code_simp

theorem skip_existing_and_rerun_witness:
  "(case run_batch latin1_db reversing_client () empty_dir demo_args (\<lambda>i. ustr ''2025'') demo_entries of
     Inl e \<Rightarrow> False
   | Inr r1 \<Rightarrow>
       results r1 = [(ustr ''page_1'', Completed), (ustr ''page_2'', Completed)] \<and>
       process_page reversing_client () (final_dir r1) (ustr ''page_1'') (ustr ''abc'') (ustr ''m'')
         False (ustr ''2026'') = (final_dir r1, (), [], Inr (ustr ''page_1'', Skipped)) \<and>
       (case run_batch latin1_db reversing_client () (final_dir r1) demo_args (\<lambda>i. ustr ''2026'')
               demo_entries of
          Inl e \<Rightarrow> False
        | Inr r2 \<Rightarrow>
            results r2 = [(ustr ''page_1'', Skipped), (ustr ''page_2'', Skipped)] \<and>
            trace r2 = [] \<and>
            map_of (files (final_dir r2)) (ustr ''page_1.txt'') = Some (ustr ''cba'')))"
proof -
  obtain r1 where run1:
      "run_batch latin1_db reversing_client () empty_dir demo_args (\<lambda>i. ustr ''2025'') demo_entries
         = Inr r1"
    and res1: "results r1 = [(ustr ''page_1'', Completed), (ustr ''page_2'', Completed)]"
    and f1: "map_of (files (final_dir r1)) (ustr ''page_1.txt'') = Some (ustr ''cba'')"
    using demo_first_run
    by (cases "run_batch latin1_db reversing_client () empty_dir demo_args (\<lambda>i. ustr ''2025'')
                 demo_entries") auto
  have ex: "file_exists (final_dir r1) (ustr ''page_1'' @ ustr ''.txt'')"
    using f1 by (simp add: file_exists_def ustr_def)
  have nf: "\<forall>x\<in>set (results r1). snd x \<noteq> Failed" using res1 by simp
  have nforce: "\<not> force demo_args" by (simp add: demo_args_def)
  have ne: "ustr ''page_1.txt'' \<noteq> ustr ''translation_summary.json''" by (simp add: ustr_def)
  note inst = skip_existing_and_rerun
    [of "final_dir r1" "ustr ''page_1''" reversing_client "()" "ustr ''abc''" "ustr ''m''"
        "ustr ''2026''" latin1_db reversing_client "()" empty_dir demo_args "\<lambda>i. ustr ''2025''"
        demo_entries r1 demo_args reversing_client "()" "\<lambda>i. ustr ''2026''"]
  from inst ex have skip:
    "process_page reversing_client () (final_dir r1) (ustr ''page_1'') (ustr ''abc'') (ustr ''m'')
         False (ustr ''2026'') = (final_dir r1, (), [], Inr (ustr ''page_1'', Skipped))"
    by blast
  from inst run1 nf nforce have run2:
    "run_batch latin1_db reversing_client () (final_dir r1) demo_args (\<lambda>i. ustr ''2026'') demo_entries =
        Inr \<lparr>final_dir = (final_dir r1)\<lparr>files :=
                 put (ustr ''translation_summary.json'')
                   (json_dumps 0 (summary_of demo_args (ustr ''2026'') (length demo_entries)
                      (map (\<lambda>p. (fst p, Skipped)) demo_entries)))
                   (files (final_dir r1))\<rparr>,
             final_client = (), trace = [],
             results = map (\<lambda>p. (fst p, Skipped)) demo_entries,
             summary = summary_of demo_args (ustr ''2026'') (length demo_entries)
                         (map (\<lambda>p. (fst p, Skipped)) demo_entries)\<rparr>"
    by blast
  have unchanged: "map_of (put (ustr ''translation_summary.json'')
                   (json_dumps 0 (summary_of demo_args (ustr ''2026'') (length demo_entries)
                      (map (\<lambda>p. (fst p, Skipped)) demo_entries)))
                   (files (final_dir r1))) (ustr ''page_1.txt'') = Some (ustr ''cba'')"
    using ne f1 by (simp add: map_of_put)
  show ?thesis
    using res1 skip unchanged by (simp add: run1 run2) (simp add: demo_entries_def)
qed


























end
